theory Spec2Isabelle
  imports Main "HOL-Library.AList"
begin

section \<open>Mirrored documents (src/js/firestore-utils.ts)\<close>

text \<open>
  Documents are plain JavaScript data: \<open>DatabaseDocument = { [key: string]: any } & object\<close>.
  An object is the list of its own properties in insertion order; writing a property keeps
  the position of an existing key and appends a new one, which is what \<open>AList.update\<close>
  does.  Its prototype is \<open>Object.prototype\<close>, as for every object made by an object
  literal or by \<open>JSON\<close>; a member that a read finds there is a function or an object of the
  runtime, \<open>JBuiltin\<close> with its name and the value of its \<open>length\<close> if it has one.
  Runtime failures of the source (reading a property of \<open>null\<close> or \<open>undefined\<close>, calling
  a method that does not exist) are the error \<open>TypeError\<close>; \<open>CallbackError\<close> is what a
  callback of a caller throws.
\<close>

datatype jsval =
    JUndefined
  | JNull
  | JBool bool
  | JNum int
  | JStr string
  | JArr "jsval list"
  | JObj "(string \<times> jsval) list"
  | JBuiltin string "nat option"

datatype error = TypeError | ProxyIdError | CallbackError

fun truthy :: "jsval \<Rightarrow> bool" where
  "truthy JUndefined = False"
| "truthy JNull = False"
| "truthy (JBool b) = b"
| "truthy (JNum n) = (n \<noteq> 0)"
| "truthy (JStr s) = (s \<noteq> [])"
| "truthy (JArr xs) = True"
| "truthy (JObj ps) = True"
| "truthy (JBuiltin n l) = True"

text \<open>
  The members of \<open>Object.prototype\<close>, which every plain object inherits: the constructor
  \<open>Object\<close> and the methods, each a function with its number of parameters as \<open>length\<close>,
  and \<open>__proto__\<close>, which answers \<open>Object.prototype\<close> itself.
\<close>

definition objectPrototype :: "(string \<times> jsval) list" where
  "objectPrototype =
     [(''constructor'', JBuiltin ''Object'' (Some 1)),
      (''__defineGetter__'', JBuiltin ''__defineGetter__'' (Some 2)),
      (''__defineSetter__'', JBuiltin ''__defineSetter__'' (Some 2)),
      (''hasOwnProperty'', JBuiltin ''hasOwnProperty'' (Some 1)),
      (''__lookupGetter__'', JBuiltin ''__lookupGetter__'' (Some 1)),
      (''__lookupSetter__'', JBuiltin ''__lookupSetter__'' (Some 1)),
      (''isPrototypeOf'', JBuiltin ''isPrototypeOf'' (Some 1)),
      (''propertyIsEnumerable'', JBuiltin ''propertyIsEnumerable'' (Some 1)),
      (''toString'', JBuiltin ''toString'' (Some 0)),
      (''valueOf'', JBuiltin ''valueOf'' (Some 0)),
      (''__proto__'', JBuiltin ''Object.prototype'' None),
      (''toLocaleString'', JBuiltin ''toLocaleString'' (Some 0))]"

text \<open>
  \<open>getProp v k\<close> is the read \<open>v[k]\<close> of a named property on a value that is not
  \<open>null\<close> or \<open>undefined\<close>.  On an object the read answers the own property if there is
  one and the member of \<open>Object.prototype\<close> otherwise.  The other values are read in the
  source only for \<open>id\<close> and for the names of subcollections when they stand in a list of
  documents; they are taken to have no such member.
\<close>

fun getProp :: "jsval \<Rightarrow> string \<Rightarrow> jsval" where
  "getProp (JObj ps) k =
     (case map_of ps k of
        Some v \<Rightarrow> v
      | None \<Rightarrow> (case map_of objectPrototype k of None \<Rightarrow> JUndefined | Some v \<Rightarrow> v))"
| "getProp v k = JUndefined"

fun setProp :: "jsval \<Rightarrow> string \<Rightarrow> jsval \<Rightarrow> jsval" where
  "setProp (JObj ps) k v = JObj (AList.update k v ps)"
| "setProp w k v = w"

text \<open>\<open>collection[i]\<close> for a number \<open>i\<close>: \<open>undefined\<close> outside the array.\<close>

definition arrayGet :: "jsval list \<Rightarrow> int \<Rightarrow> jsval" where
  "arrayGet xs i = (if 0 \<le> i \<and> i < int (length xs) then xs ! nat i else JUndefined)"

text \<open>
  \<open>Array.prototype.splice(start, deleteCount, ...items)\<close> on integer arguments: a negative
  start counts from the end, a start beyond the end is the end, and the delete count is
  clamped to what is left.
\<close>

definition splice :: "'a list \<Rightarrow> int \<Rightarrow> int \<Rightarrow> 'a list \<Rightarrow> 'a list" where
  "splice xs start deleteCount items =
     (let len = int (length xs);
          actualStart = (if start < 0 then max (len + start) 0 else min start len);
          actualDeleteCount = min (max deleteCount 0) (len - actualStart)
      in take (nat actualStart) xs @ items @ drop (nat (actualStart + actualDeleteCount)) xs)"

subsection \<open>Options\<close>

datatype NormalizedFirestoreObjectOptions =
  Normalized (collectionPath: string) (name: string)
             (subcollections: "NormalizedFirestoreObjectOptions list")

text \<open>
  \<open>FirestoreObjectOptions\<close> is a path string or an options object; an object that carries
  the \<open>__normalized\<close> mark is returned as it is.  The \<open>query\<close> member only changes what
  the remote listener reports and is left out.
\<close>

datatype FirestoreObjectOptions =
    OptString string
  | OptObject string "string option" "FirestoreObjectOptions list option"
  | OptNormalized NormalizedFirestoreObjectOptions

fun normalizeFirestoreObjectOptions :: "FirestoreObjectOptions \<Rightarrow> NormalizedFirestoreObjectOptions" where
  "normalizeFirestoreObjectOptions (OptNormalized n) = n"
| "normalizeFirestoreObjectOptions (OptString s) = Normalized s s []"
| "normalizeFirestoreObjectOptions (OptObject p nm subs) =
     Normalized p (case nm of None \<Rightarrow> p | Some n \<Rightarrow> n)
       (case subs of None \<Rightarrow> [] | Some l \<Rightarrow> map normalizeFirestoreObjectOptions l)"

subsection \<open>Change-stream events\<close>

record DocumentSnapshot =
  snapshotId :: string
  snapshotData :: "(string \<times> jsval) list"

datatype DocumentChangeType = Added | Modified | Removed

record DocumentChange =
  changeType :: DocumentChangeType
  changeDoc :: DocumentSnapshot
  oldIndex :: int
  newIndex :: int

text \<open>A \<open>QuerySnapshot\<close> is read only through \<open>docChanges()\<close>: the list of its changes.\<close>

type_synonym QuerySnapshot = "DocumentChange list"

subsection \<open>Applying a change\<close>

text \<open>
  \<open>applyDocumentChanges\<close>: the object \<open>{id: snapshot.id, ...snapshot.data()}\<close>, then one
  field per configured subcollection, kept from the old document when it has one and the
  empty array otherwise.  (A subcollection named \<open>__proto__\<close> is left aside: assigning it
  would change the prototype of the new document instead of giving it a field.)
\<close>

definition spreadInto :: "(string \<times> jsval) list \<Rightarrow> (string \<times> jsval) list \<Rightarrow> (string \<times> jsval) list" where
  "spreadInto obj props = foldl (\<lambda>acc (k, v). AList.update k v acc) obj props"

definition applyDocumentChanges ::
  "jsval \<Rightarrow> DocumentSnapshot \<Rightarrow> NormalizedFirestoreObjectOptions \<Rightarrow> jsval" where
  "applyDocumentChanges document snapshot options =
     JObj (foldl
       (\<lambda>updatedDoc subcollection.
          AList.update (name subcollection)
            (if truthy document \<and> getProp document (name subcollection) \<noteq> JUndefined
             then getProp document (name subcollection) else JArr [])
            updatedDoc)
       (spreadInto [(''id'', JStr (snapshotId snapshot))] (snapshotData snapshot))
       (subcollections options))"

text \<open>The body of the loop of \<open>applyCollectionChanges\<close>, for one \<open>documentChange\<close>.\<close>

definition applyDocumentChange ::
  "jsval list \<Rightarrow> DocumentChange \<Rightarrow> NormalizedFirestoreObjectOptions \<Rightarrow> jsval list" where
  "applyDocumentChange collection documentChange options =
     (case changeType documentChange of
        Added \<Rightarrow>
          splice collection (newIndex documentChange) 0
            [applyDocumentChanges JNull (changeDoc documentChange) options]
      | Modified \<Rightarrow>
          (let updatedDocument =
                 applyDocumentChanges (arrayGet collection (oldIndex documentChange))
                   (changeDoc documentChange) options
           in if oldIndex documentChange = newIndex documentChange
              then splice collection (oldIndex documentChange) 1 [updatedDocument]
              else splice (splice collection (oldIndex documentChange) 1 [])
                     (newIndex documentChange) 0 [updatedDocument])
      | Removed \<Rightarrow> splice collection (oldIndex documentChange) 1 [])"

definition applyCollectionChanges ::
  "jsval list \<Rightarrow> QuerySnapshot \<Rightarrow> NormalizedFirestoreObjectOptions \<Rightarrow> jsval list" where
  "applyCollectionChanges collection snapshot options =
     foldl (\<lambda>c documentChange. applyDocumentChange c documentChange options) collection snapshot"

subsection \<open>Reference paths\<close>

text \<open>
  \<open>getObjectFromRefPath\<close> walks the reference path, alternating between a document id
  (looked up in the current list) and a subcollection path (looked up in the options, then
  read from the current document under the subcollection's name).  The source returns
  references into the tree; here the result also carries \<open>rebuild\<close>, which puts a new
  value where \<open>object\<close> sits in the root, so that the in-place update of the caller can be
  written out.
\<close>

datatype RefKey = KeyNull | KeyIndex nat | KeyName string

record ObjectInfo =
  object :: jsval
  options :: NormalizedFirestoreObjectOptions
  parent :: jsval
  key :: RefKey
  rebuild :: "jsval \<Rightarrow> jsval"

text \<open>
  The inner \<open>for\<close> loop: the first index \<open>i\<close> with \<open>object[i].id === ref\<close>.  Reading
  \<open>.id\<close> of a \<open>null\<close> or \<open>undefined\<close> element throws.
\<close>

fun findDocument :: "jsval list \<Rightarrow> string \<Rightarrow> nat \<Rightarrow> error + (nat \<times> jsval) option" where
  "findDocument [] ref i = Inr None"
| "findDocument (d # ds) ref i =
     (if d = JUndefined \<or> d = JNull then Inl TypeError
      else if getProp d ''id'' = JStr ref then Inr (Some (i, d))
      else findDocument ds ref (Suc i))"

text \<open>
  The elements the loop \<open>for (i = 0; i < object.length; i++)\<close> visits, \<open>object[0]\<close> to
  \<open>object[length - 1]\<close>: those of an array; for an object that has a \<open>length\<close> (an
  array-like), what it has under the decimal names of the indices; for a function of the
  runtime, which has its number of parameters as \<open>length\<close> and no element, \<open>undefined\<close>
  that many times.  A value without \<open>length\<close> gives none; a string gives its characters,
  none of which has an \<open>id\<close>, which comes to the same.  Of the values a \<open>length\<close> can
  have only the numbers are modelled.
\<close>

definition digit :: "nat \<Rightarrow> char" where
  "digit n = ''0123456789'' ! n"

function decimal :: "nat \<Rightarrow> string" where
  "decimal n = (if n < 10 then [digit n] else decimal (n div 10) @ [digit (n mod 10)])"
  by pat_completeness auto
termination
  by (relation "measure id") auto

fun elements :: "jsval \<Rightarrow> jsval list" where
  "elements (JArr xs) = xs"
| "elements (JObj ps) =
     (case getProp (JObj ps) ''length'' of
        JNum n \<Rightarrow> map (\<lambda>i. getProp (JObj ps) (decimal i)) [0..<nat n]
      | _ \<Rightarrow> [])"
| "elements (JBuiltin n (Some l)) = replicate l JUndefined"
| "elements v = []"

fun setElement :: "jsval \<Rightarrow> nat \<Rightarrow> jsval \<Rightarrow> jsval" where
  "setElement (JArr xs) i v = JArr (xs[i := v])"
| "setElement (JObj ps) i v = JObj (AList.update (decimal i) v ps)"
| "setElement w i v = w"

fun getObjectFromRefPathLoop ::
  "string list \<Rightarrow> bool \<Rightarrow> ObjectInfo \<Rightarrow> error + ObjectInfo option" where
  "getObjectFromRefPathLoop [] isRefId info = Inr (Some info)"
| "getObjectFromRefPathLoop (ref # refPath) isRefId info =
     (if isRefId then
        (if object info = JUndefined \<or> object info = JNull then Inl TypeError
         else
           (case findDocument (elements (object info)) ref 0 of
              Inl e \<Rightarrow> Inl e
            | Inr None \<Rightarrow> Inr None
            | Inr (Some (i, d)) \<Rightarrow>
                getObjectFromRefPathLoop refPath (\<not> isRefId)
                  \<lparr> object = d, options = options info, parent = object info, key = KeyIndex i,
                    rebuild = (\<lambda>v. rebuild info (setElement (object info) i v)) \<rparr>))
      else
        (case find (\<lambda>opt. collectionPath opt = ref) (subcollections (options info)) of
           None \<Rightarrow> Inl TypeError
         | Some collectionOptions \<Rightarrow>
             if object info = JUndefined \<or> object info = JNull then Inl TypeError
             else if \<not> truthy (getProp (object info) (name collectionOptions)) then Inr None
             else
               getObjectFromRefPathLoop refPath (\<not> isRefId)
                 \<lparr> object = getProp (object info) (name collectionOptions),
                   options = collectionOptions, parent = object info,
                   key = KeyName (name (options info)),
                   rebuild = (\<lambda>v. rebuild info
                                (setProp (object info) (name collectionOptions) v)) \<rparr>))"

definition getObjectFromRefPath ::
  "jsval \<Rightarrow> bool \<Rightarrow> string list \<Rightarrow> NormalizedFirestoreObjectOptions \<Rightarrow> error + ObjectInfo option" where
  "getObjectFromRefPath obj isCollection refPath opts =
     getObjectFromRefPathLoop refPath isCollection
       \<lparr> object = obj, options = opts, parent = JNull, key = KeyNull, rebuild = (\<lambda>v. v) \<rparr>"

text \<open>
  \<open>updateCollectionFromSnapshot\<close>.  The addressed object is updated in place by
  \<open>applyCollectionChanges\<close> and the root collection is returned; \<open>splice\<close> is called
  only when the snapshot has a change, and throws when the addressed object is not an array.
\<close>

definition updateCollectionFromSnapshot ::
  "jsval list \<Rightarrow> FirestoreObjectOptions \<Rightarrow> string list \<Rightarrow> QuerySnapshot \<Rightarrow> error + jsval list" where
  "updateCollectionFromSnapshot collection opts refPath snapshot =
     (let normalizedOptions = normalizeFirestoreObjectOptions opts in
      case getObjectFromRefPath (JArr collection) True refPath normalizedOptions of
        Inl e \<Rightarrow> Inl e
      | Inr None \<Rightarrow> Inr collection
      | Inr (Some objectInfo) \<Rightarrow>
          (case object objectInfo of
             JArr xs \<Rightarrow>
               Inr (elements (rebuild objectInfo
                      (JArr (applyCollectionChanges xs snapshot (options objectInfo)))))
           | other \<Rightarrow> if snapshot = [] then Inr collection else Inl TypeError))"

subsection \<open>Well-formed collections and unresolved reference paths\<close>

text \<open>
  A collection is \<open>T[]\<close> with \<open>T extends object\<close>: no element is \<open>null\<close> or
  \<open>undefined\<close>, and the same holds for every configured subcollection field that is an
  array.
\<close>

fun wellFormedCollection :: "NormalizedFirestoreObjectOptions \<Rightarrow> jsval list \<Rightarrow> bool" where
  "wellFormedCollection (Normalized p n subs) docs =
     list_all (\<lambda>d. d \<noteq> JUndefined \<and> d \<noteq> JNull \<and>
        list_all (\<lambda>sub. case getProp d (name sub) of
                          JArr ys \<Rightarrow> wellFormedCollection sub ys
                        | _ \<Rightarrow> True) subs) docs"

text \<open>
  A reference path that does not resolve, as the specification words it: walking the path, a
  document-id segment matches no document's id in the list it addresses, or the
  subcollection that a segment names (in the options) is a field the document does not have:
  reading it gives \<open>undefined\<close>, so the document neither has it nor inherits it.
\<close>

fun refPathUnresolved :: "jsval list \<Rightarrow> string list \<Rightarrow> NormalizedFirestoreObjectOptions \<Rightarrow> bool" where
  "refPathUnresolved docs [] opts = False"
| "refPathUnresolved docs [docId] opts =
     (find (\<lambda>d. getProp d ''id'' = JStr docId) docs = None)"
| "refPathUnresolved docs (docId # sub # refPath) opts =
     (case find (\<lambda>d. getProp d ''id'' = JStr docId) docs of
        None \<Rightarrow> True
      | Some d \<Rightarrow>
          (case find (\<lambda>opt. collectionPath opt = sub) (subcollections opts) of
             None \<Rightarrow> False
           | Some subOptions \<Rightarrow>
               (case getProp d (name subOptions) of
                  JUndefined \<Rightarrow> True
                | JArr ys \<Rightarrow> refPathUnresolved ys refPath subOptions
                | _ \<Rightarrow> False)))"

text \<open>
  A reference path with a segment that is the path of no subcollection the options declare:
  the path resolves up to a document, and the next segment names nothing in the options of
  the list the document stands in.
\<close>

fun refPathUndeclared :: "jsval list \<Rightarrow> string list \<Rightarrow> NormalizedFirestoreObjectOptions \<Rightarrow> bool" where
  "refPathUndeclared docs [] opts = False"
| "refPathUndeclared docs [docId] opts = False"
| "refPathUndeclared docs (docId # sub # refPath) opts =
     (case find (\<lambda>d. getProp d ''id'' = JStr docId) docs of
        None \<Rightarrow> False
      | Some d \<Rightarrow>
          (case find (\<lambda>opt. collectionPath opt = sub) (subcollections opts) of
             None \<Rightarrow> True
           | Some subOptions \<Rightarrow>
               (case getProp d (name subOptions) of
                  JArr ys \<Rightarrow> refPathUndeclared ys refPath subOptions
                | _ \<Rightarrow> False)))"

subsection \<open>Sample data\<close>

definition docA :: jsval where "docA = JObj [(''id'', JStr ''a'')]"

definition docB :: jsval where "docB = JObj [(''id'', JStr ''b'')]"

definition docC :: jsval where "docC = JObj [(''id'', JStr ''c'')]"

definition usersOptions :: NormalizedFirestoreObjectOptions where
  "usersOptions = Normalized ''users'' ''users'' []"

definition moveAToEnd :: DocumentChange where
  "moveAToEnd = \<lparr> changeType = Modified,
       changeDoc = \<lparr> snapshotId = ''a'', snapshotData = [(''n'', JNum 1)] \<rparr>,
       oldIndex = 0, newIndex = 2 \<rparr>"

definition modifyFirst :: DocumentChange where
  "modifyFirst = \<lparr> changeType = Modified,
       changeDoc = \<lparr> snapshotId = ''a'', snapshotData = [] \<rparr>,
       oldIndex = 0, newIndex = 0 \<rparr>"

definition usersWithPosts :: FirestoreObjectOptions where
  "usersWithPosts = OptObject ''users'' None (Some [OptString ''posts''])"

definition userU1 :: jsval where
  "userU1 = JObj [(''id'', JStr ''u1''), (''posts'', JArr [JObj [(''id'', JStr ''p1'')]])]"

definition userU2 :: jsval where
  "userU2 = JObj [(''id'', JStr ''u2'')]"

definition addPost :: DocumentChange where
  "addPost = \<lparr> changeType = Added,
       changeDoc = \<lparr> snapshotId = ''p2'', snapshotData = [] \<rparr>,
       oldIndex = -1, newIndex = 0 \<rparr>"

definition usersWithConstructor :: FirestoreObjectOptions where
  "usersWithConstructor = OptObject ''users'' None (Some [OptString ''constructor''])"

definition usersWithComments :: FirestoreObjectOptions where
  "usersWithComments =
     OptObject ''users'' None
       (Some [OptObject ''posts'' None (Some [OptString ''comments''])])"

section \<open>Identity wrappers (src/js/proxy.ts, src/plugins/vuex/vuex-decorators.ts)\<close>

text \<open>
  The state tree of a module holds arbitrary JavaScript values.  An object is its shape (what
  \<open>isJsonIncompatible\<close> reads besides the properties) and the list of its own string-keyed
  properties as \<open>Object.getOwnPropertyNames\<close> lists them, each with the flags of its
  descriptor and the value it holds.  A wrapper made by
  \<open>createNonEnumerableProxy(obj, id)\<close> is \<open>VProxy id obj\<close>.

  A property with a getter or a setter is an accessor property; reading it calls the getter
  and assigning it calls the setter, which are code of whoever defined the property.  Two
  kinds are told apart by \<open>backed\<close>.  A backed accessor is one over storage, as the
  reactive properties that Vue defines on the objects it observes: the getter answers the
  object that is stored, so that what is changed inside that object is there at the next
  read, and the setter stores what it is given.  An accessor that is not backed computes its
  answer at every read from the value it holds: what is changed inside the answer is lost,
  and its setter stores nothing.  Getters and setters are taken to return and to touch
  nothing else.
\<close>

record ObjectShape =
  isArray :: bool
  prototypeIsObjectPrototype :: bool
  ownPropertySymbols :: nat

record PropertyFlags =
  configurable :: bool
  enumerable :: bool
  writable :: bool
  hasGetter :: bool
  hasSetter :: bool
  backed :: bool

datatype val =
    VUndefined
  | VNull
  | VBoolean bool
  | VNumber int
  | VString string
  | VBigInt int
  | VSymbol nat
  | VFunction nat
  | VProxy val val
  | VObject ObjectShape "(string \<times> PropertyFlags \<times> val) list"

fun typeof :: "val \<Rightarrow> string" where
  "typeof VUndefined = ''undefined''"
| "typeof VNull = ''object''"
| "typeof (VBoolean b) = ''boolean''"
| "typeof (VNumber n) = ''number''"
| "typeof (VString s) = ''string''"
| "typeof (VBigInt n) = ''bigint''"
| "typeof (VSymbol n) = ''symbol''"
| "typeof (VFunction n) = ''function''"
| "typeof (VProxy i t) = ''object''"
| "typeof (VObject sh ps) = ''object''"

fun truthyVal :: "val \<Rightarrow> bool" where
  "truthyVal VUndefined = False"
| "truthyVal VNull = False"
| "truthyVal (VBoolean b) = b"
| "truthyVal (VNumber n) = (n \<noteq> 0)"
| "truthyVal (VString s) = (s \<noteq> [])"
| "truthyVal (VBigInt n) = (n \<noteq> 0)"
| "truthyVal v = True"

text \<open>
  \<open>obj[key]\<close> for an own string key of an object: the value of a data property, the answer
  of the getter of an accessor property, \<open>undefined\<close> when the accessor has no getter.
\<close>

definition isAccessor :: "PropertyFlags \<Rightarrow> bool" where
  "isAccessor f = (hasGetter f \<or> hasSetter f)"

definition readValue :: "PropertyFlags \<Rightarrow> val \<Rightarrow> val" where
  "readValue f v = (if isAccessor f \<and> \<not> hasGetter f then VUndefined else v)"

fun readProperty :: "(string \<times> PropertyFlags \<times> val) list \<Rightarrow> string \<Rightarrow> val" where
  "readProperty [] k = VUndefined"
| "readProperty ((k', f, v) # ps) k = (if k' = k then readValue f v else readProperty ps k)"

subsection \<open>proxy.ts\<close>

definition proxyIdProperty :: string where
  "proxyIdProperty = ''__proxy_id''"

definition createNonEnumerableProxy :: "val \<Rightarrow> val \<Rightarrow> val" where
  "createNonEnumerableProxy obj ident = VProxy ident obj"

text \<open>
  \<open>isProxy\<close> is \<open>obj[proxyTargetSymbol] !== undefined\<close>.  The symbol is answered by the
  \<open>get\<close> trap of a wrapper with the wrapped object (\<open>T extends object\<close>, never
  \<open>undefined\<close>); no other value has it.
\<close>

fun isProxy :: "val \<Rightarrow> bool" where
  "isProxy (VProxy i t) = True"
| "isProxy v = False"

fun getProxyId :: "val \<Rightarrow> val" where
  "getProxyId (VProxy i t) = i"
| "getProxyId (VObject sh ps) = readProperty ps proxyIdProperty"
| "getProxyId v = VUndefined"

definition isProxyWithoutTarget :: "val \<Rightarrow> bool" where
  "isProxyWithoutTarget obj = (getProxyId obj \<noteq> VUndefined \<and> \<not> isProxy obj)"

subsection \<open>isJsonIncompatible\<close>

text \<open>\<open>descriptor.value\<close>: an accessor descriptor has none.\<close>

definition descriptorValue :: "PropertyFlags \<Rightarrow> val \<Rightarrow> val" where
  "descriptorValue f v = (if isAccessor f then VUndefined else v)"

definition incompatibleProperty :: "bool \<Rightarrow> string \<times> PropertyFlags \<times> val \<Rightarrow> bool" where
  "incompatibleProperty isObservable p =
     (case p of (k, f, v) \<Rightarrow>
        k \<noteq> ''__ob__'' \<and>
        (\<not> configurable f \<or> \<not> enumerable f
         \<or> (\<not> (hasGetter f \<or> hasSetter f) \<and> \<not> writable f)
         \<or> (\<not> isObservable \<and> (hasGetter f \<or> hasSetter f))
         \<or> typeof (descriptorValue f v)
              \<notin> set [''undefined'', ''boolean'', ''number'', ''string'', ''object'']))"

fun isJsonIncompatible :: "val \<Rightarrow> bool" where
  "isJsonIncompatible (VObject sh ps) =
     (if isArray sh then False
      else if \<not> prototypeIsObjectPrototype sh then True
      else if ownPropertySymbols sh > 0 then True
      else list_ex (incompatibleProperty (truthyVal (readProperty ps ''__ob__''))) ps)"
| "isJsonIncompatible v = False"

subsection \<open>Token tables and random tokens\<close>

text \<open>
  A token table is a \<open>Map\<close>: keys in insertion order, \<open>set\<close> keeps the place of a key it
  already has.  The two tables are passed by reference and may be one and the same
  \<open>Map\<close> (outside production mode \<open>initProxyObjects\<close> passes \<open>this._proxyObjects\<close> twice), so
  maps live in a store and are named by their address.  \<open>drawn\<close> counts the calls of
  \<open>randomString\<close> made so far; the \<open>n\<close>-th call answers \<open>randomString n\<close>.
\<close>

type_synonym ProxyTable = "(val \<times> val) list"

record ProxyState =
  maps :: "nat \<Rightarrow> ProxyTable"
  drawn :: nat

definition mapHas :: "ProxyTable \<Rightarrow> val \<Rightarrow> bool" where
  "mapHas m k = (map_of m k \<noteq> None)"

definition mapGet :: "ProxyTable \<Rightarrow> val \<Rightarrow> val" where
  "mapGet m k = (case map_of m k of None \<Rightarrow> VUndefined | Some v \<Rightarrow> v)"

definition mapSet :: "nat \<Rightarrow> val \<Rightarrow> val \<Rightarrow> ProxyState \<Rightarrow> ProxyState" where
  "mapSet r k v st = st\<lparr> maps := (maps st)(r := AList.update k v (maps st r)) \<rparr>"

text \<open>
  \<open>generateProxyId\<close>: the \<open>do ... while (triesLeft > 0)\<close> loop.  The result is paired with
  the number of \<open>randomString\<close> calls made so far, also when the function throws.
\<close>

function generateProxyIdLoop ::
  "(nat \<Rightarrow> string) \<Rightarrow> ProxyTable \<Rightarrow> ProxyTable \<Rightarrow> int \<Rightarrow> nat \<Rightarrow> (error + string) \<times> nat" where
  "generateProxyIdLoop randomString oldProxyObjects newProxyObjects triesLeft n =
     (let ident = randomString n in
      if \<not> mapHas oldProxyObjects (VString ident) \<and> \<not> mapHas newProxyObjects (VString ident)
      then (Inr ident, Suc n)
      else if triesLeft - 1 > 0
           then generateProxyIdLoop randomString oldProxyObjects newProxyObjects (triesLeft - 1) (Suc n)
           else (Inl ProxyIdError, Suc n))"
  by pat_completeness auto
termination
  by (relation "measure (\<lambda>(r, old, new, triesLeft, n). nat triesLeft)") auto

definition generateProxyId ::
  "(nat \<Rightarrow> string) \<Rightarrow> ProxyTable \<Rightarrow> ProxyTable \<Rightarrow> nat \<Rightarrow> (error + string) \<times> nat" where
  "generateProxyId randomString oldProxyObjects newProxyObjects n =
     generateProxyIdLoop randomString oldProxyObjects newProxyObjects 100 n"

subsection \<open>initProxiesRecursively\<close>

text \<open>
  The walk updates plain objects in place and returns them, so \<open>newValue !== oldValue\<close>
  holds exactly when the walk answered with another object than it was given: for a
  tokenized copy (answered from the old table) and for a JSON-incompatible object (answered
  with a fresh wrapper).  Then the property is assigned, which throws (strict mode) on a
  read-only data property and on an accessor without setter.

  \<open>oldValue\<close> is what the read \<open>obj[key]\<close> gives.  \<open>afterWalk\<close> is what the property
  holds when the walk has answered \<open>newValue\<close> for it: \<open>newValue\<close> for a data property
  (assigned, or the same object updated in place) and for a backed accessor with a getter
  (stored by the setter, or the stored object updated in place); what it held before for
  the other accessors.
\<close>

definition isObjectValue :: "val \<Rightarrow> bool" where
  "isObjectValue obj = (obj \<noteq> VNull \<and> typeof obj = ''object'')"

definition answersOtherObject :: "val \<Rightarrow> bool" where
  "answersOtherObject obj =
     (isObjectValue obj \<and> \<not> isProxy obj \<and> (isProxyWithoutTarget obj \<or> isJsonIncompatible obj))"

definition assignable :: "PropertyFlags \<Rightarrow> bool" where
  "assignable f = (if isAccessor f then hasSetter f else writable f)"

definition afterWalk :: "PropertyFlags \<Rightarrow> val \<Rightarrow> val \<Rightarrow> val" where
  "afterWalk f stored newValue =
     (if isAccessor f \<and> \<not> (hasGetter f \<and> backed f) then stored else newValue)"

function (sequential) initProxiesRecursively ::
      "(nat \<Rightarrow> string) \<Rightarrow> nat \<Rightarrow> nat \<Rightarrow> val \<Rightarrow> ProxyState \<Rightarrow> error + (val \<times> ProxyState)"
  and initOwnProperties ::
      "(nat \<Rightarrow> string) \<Rightarrow> nat \<Rightarrow> nat \<Rightarrow> (string \<times> PropertyFlags \<times> val) list \<Rightarrow> ProxyState
         \<Rightarrow> error + ((string \<times> PropertyFlags \<times> val) list \<times> ProxyState)" where
  "initProxiesRecursively randomString oldProxyObjects newProxyObjects (VProxy i t) st =
     Inr (VProxy i t, mapSet newProxyObjects (getProxyId (VProxy i t)) (VProxy i t) st)"
| "initProxiesRecursively randomString oldProxyObjects newProxyObjects (VObject sh ps) st =
     (if isProxyWithoutTarget (VObject sh ps) then
        (let ident = getProxyId (VObject sh ps);
             proxy = mapGet (maps st oldProxyObjects) ident
         in Inr (proxy, mapSet newProxyObjects ident proxy st))
      else if isJsonIncompatible (VObject sh ps) then
        (case generateProxyId randomString (maps st oldProxyObjects) (maps st newProxyObjects)
                (drawn st) of
           (Inl e, n) \<Rightarrow> Inl e
         | (Inr ident, n) \<Rightarrow>
             (let proxy = createNonEnumerableProxy (VObject sh ps) (VString ident)
              in Inr (proxy, mapSet newProxyObjects (VString ident) proxy (st\<lparr> drawn := n \<rparr>))))
      else
        (case initOwnProperties randomString oldProxyObjects newProxyObjects ps st of
           Inl e \<Rightarrow> Inl e
         | Inr (ps', st') \<Rightarrow> Inr (VObject sh ps', st')))"
| "initProxiesRecursively randomString oldProxyObjects newProxyObjects VUndefined st = Inr (VUndefined, st)"
| "initProxiesRecursively randomString oldProxyObjects newProxyObjects VNull st = Inr (VNull, st)"
| "initProxiesRecursively randomString oldProxyObjects newProxyObjects (VBoolean b) st = Inr (VBoolean b, st)"
| "initProxiesRecursively randomString oldProxyObjects newProxyObjects (VNumber n) st = Inr (VNumber n, st)"
| "initProxiesRecursively randomString oldProxyObjects newProxyObjects (VString s) st = Inr (VString s, st)"
| "initProxiesRecursively randomString oldProxyObjects newProxyObjects (VBigInt n) st = Inr (VBigInt n, st)"
| "initProxiesRecursively randomString oldProxyObjects newProxyObjects (VSymbol n) st = Inr (VSymbol n, st)"
| "initProxiesRecursively randomString oldProxyObjects newProxyObjects (VFunction n) st = Inr (VFunction n, st)"
| "initOwnProperties randomString oldProxyObjects newProxyObjects [] st = Inr ([], st)"
| "initOwnProperties randomString oldProxyObjects newProxyObjects ((k, f, stored) # ps) st =
     (case initProxiesRecursively randomString oldProxyObjects newProxyObjects (readValue f stored) st of
        Inl e \<Rightarrow> Inl e
      | Inr (newValue, st') \<Rightarrow>
          if answersOtherObject (readValue f stored) \<and> \<not> assignable f then Inl TypeError
          else
            (case initOwnProperties randomString oldProxyObjects newProxyObjects ps st' of
               Inl e \<Rightarrow> Inl e
             | Inr (ps', st'') \<Rightarrow> Inr ((k, f, afterWalk f stored newValue) # ps', st'')))"
  by pat_completeness auto
termination
  by (lexicographic_order simp: readValue_def)

subsection \<open>Fresh tokens, sample values\<close>

text \<open>The test of \<open>generateProxyId\<close>: the token is a key of neither table.\<close>

definition freshToken :: "ProxyTable \<Rightarrow> ProxyTable \<Rightarrow> string \<Rightarrow> bool" where
  "freshToken old new ident = (\<not> mapHas old (VString ident) \<and> \<not> mapHas new (VString ident))"

definition takenTable :: ProxyTable where
  "takenTable = [(VString ''a'', VUndefined)]"

definition plainShape :: ObjectShape where
  "plainShape = \<lparr> isArray = False, prototypeIsObjectPrototype = True, ownPropertySymbols = 0 \<rparr>"

definition dataProperty :: PropertyFlags where
  "dataProperty = \<lparr> configurable = True, enumerable = True, writable = True,
                     hasGetter = False, hasSetter = False, backed = False \<rparr>"

text \<open>A property of a frozen object or array: a data property that is neither writable nor configurable.\<close>

definition frozenProperty :: PropertyFlags where
  "frozenProperty = \<lparr> configurable = False, enumerable = True, writable = False,
                       hasGetter = False, hasSetter = False, backed = False \<rparr>"

definition arrayShape :: ObjectShape where
  "arrayShape = \<lparr> isArray = True, prototypeIsObjectPrototype = False, ownPropertySymbols = 0 \<rparr>"

definition staleCopy :: val where
  "staleCopy = VObject plainShape [(''__proxy_id'', dataProperty, VString ''gone'')]"

definition emptyProxyState :: ProxyState where
  "emptyProxyState = \<lparr> maps = (\<lambda>r. []), drawn = 0 \<rparr>"

subsection \<open>Token tables as the walk leaves them, processed trees\<close>

text \<open>
  The walk stores under a token either a live wrapper that carries this token or
  \<open>undefined\<close> (for a token it could not resolve).  \<open>tableOk\<close> says that a table holds
  nothing else; the empty table of a new module does, and the walk keeps it so.
\<close>

definition entryOk :: "val \<Rightarrow> val \<Rightarrow> bool" where
  "entryOk k v = (v = VUndefined \<or> (isProxy v \<and> getProxyId v = k))"

definition tableOk :: "ProxyTable \<Rightarrow> bool" where
  "tableOk m = list_all (\<lambda>(k, v). entryOk k v) m"

text \<open>
  \<open>isJsonIncompatible\<close> reads \<open>obj.__ob__\<close>, the observer that the reactive container
  attaches to the objects it observes.  \<open>observersIntact\<close>: in no object of the tree is this
  property itself a tokenized copy without target.
\<close>

fun observersIntact :: "val \<Rightarrow> bool"
  and observersIntactProperties :: "(string \<times> PropertyFlags \<times> val) list \<Rightarrow> bool" where
  "observersIntact (VObject sh ps) =
     (\<not> isProxyWithoutTarget (readProperty ps ''__ob__'') \<and> observersIntactProperties ps)"
| "observersIntact v = True"
| "observersIntactProperties [] = True"
| "observersIntactProperties ((k, f, v) # ps) = (observersIntact v \<and> observersIntactProperties ps)"

text \<open>
  \<open>backedAccessors\<close>: in the objects the walk goes into (those it neither resolves nor
  wraps), every accessor property has a getter and is backed by storage.
\<close>

fun backedAccessors :: "val \<Rightarrow> bool"
  and backedAccessorsProperties :: "(string \<times> PropertyFlags \<times> val) list \<Rightarrow> bool" where
  "backedAccessors (VObject sh ps) =
     (isProxyWithoutTarget (VObject sh ps) \<or> isJsonIncompatible (VObject sh ps)
      \<or> backedAccessorsProperties ps)"
| "backedAccessors v = True"
| "backedAccessorsProperties [] = True"
| "backedAccessorsProperties ((k, f, v) # ps) =
     ((isAccessor f \<longrightarrow> hasGetter f \<and> backed f) \<and> backedAccessors v
      \<and> backedAccessorsProperties ps)"

text \<open>
  What the walk returns: wrappers, values that are no objects, and plain objects that are
  neither tokenized copies nor JSON-incompatible, down to the leaves.  \<open>wrapperIds\<close> are the
  tokens of the wrappers the walk meets in a tree, \<open>tokens\<close> the keys of a table.
\<close>

fun processed :: "val \<Rightarrow> bool"
  and processedProperties :: "(string \<times> PropertyFlags \<times> val) list \<Rightarrow> bool" where
  "processed (VObject sh ps) =
     (\<not> isProxyWithoutTarget (VObject sh ps) \<and> \<not> isJsonIncompatible (VObject sh ps)
      \<and> processedProperties ps)"
| "processed v = True"
| "processedProperties [] = True"
| "processedProperties ((k, f, v) # ps) = (processed v \<and> processedProperties ps)"

fun wrapperIds :: "val \<Rightarrow> val set"
  and wrapperIdsProperties :: "(string \<times> PropertyFlags \<times> val) list \<Rightarrow> val set" where
  "wrapperIds (VProxy i t) = {i}"
| "wrapperIds (VObject sh ps) = wrapperIdsProperties ps"
| "wrapperIds v = {}"
| "wrapperIdsProperties [] = {}"
| "wrapperIdsProperties ((k, f, v) # ps) = wrapperIds v \<union> wrapperIdsProperties ps"

definition tokens :: "nat \<Rightarrow> ProxyState \<Rightarrow> val set" where
  "tokens r st = fst ` set (maps st r)"

text \<open>
  How the value the walk returns relates to the value it was given, as far as
  \<open>isJsonIncompatible\<close> and \<open>isProxyWithoutTarget\<close> of the parent can tell.
\<close>

definition resultRel :: "val \<Rightarrow> val \<Rightarrow> bool" where
  "resultRel v v' =
     ((\<not> isObjectValue v \<longrightarrow> v' = v)
      \<and> (isObjectValue v \<longrightarrow> v' = VUndefined \<or> isObjectValue v')
      \<and> (\<not> isProxyWithoutTarget v \<longrightarrow> truthyVal v' = truthyVal v))"

definition propertyRel :: "string \<times> PropertyFlags \<times> val \<Rightarrow> string \<times> PropertyFlags \<times> val \<Rightarrow> bool" where
  "propertyRel p p' = (fst p' = fst p \<and> fst (snd p') = fst (snd p) \<and> resultRel (snd (snd p)) (snd (snd p')))"

definition passResult ::
  "nat \<Rightarrow> nat \<Rightarrow> ProxyState \<Rightarrow> ProxyState \<Rightarrow> bool" where
  "passResult old new st st' =
     ((\<forall>r. tableOk (maps st r) \<longrightarrow> tableOk (maps st' r)) \<and> tokens new st \<subseteq> tokens new st')"

subsection \<open>Sample state trees\<close>

definition hiddenProperty :: PropertyFlags where
  "hiddenProperty = \<lparr> configurable = True, enumerable = False, writable = True,
                       hasGetter = False, hasSetter = False, backed = False \<rparr>"

definition reactiveProperty :: PropertyFlags where
  "reactiveProperty = \<lparr> configurable = True, enumerable = True, writable = False,
                         hasGetter = True, hasSetter = True, backed = True \<rparr>"

definition classInstance :: val where
  "classInstance = VObject \<lparr> isArray = False, prototypeIsObjectPrototype = False,
                             ownPropertySymbols = 0 \<rparr> [(''since'', dataProperty, VNumber 7)]"

definition sampleState :: val where
  "sampleState = VObject plainShape
     [(''count'', dataProperty, VNumber 1),
      (''when'', dataProperty, classInstance),
      (''user'', dataProperty, staleCopy)]"

definition sampleStateWrapped :: val where
  "sampleStateWrapped = VObject plainShape
     [(''count'', dataProperty, VNumber 1),
      (''when'', dataProperty, VProxy (VString ''t0'') classInstance),
      (''user'', dataProperty, VUndefined)]"

definition sampleTables :: "nat \<Rightarrow> ProxyTable" where
  "sampleTables = (\<lambda>r. [])(1 := [(VString ''t0'', VProxy (VString ''t0'') classInstance),
                                 (VString ''gone'', VUndefined)])"

definition tokenDraws :: "nat \<Rightarrow> string" where
  "tokenDraws n = (if n = 0 then ''t0'' else ''t1'')"

definition observerLost :: val where
  "observerLost = VObject plainShape
     [(''__ob__'', hiddenProperty, staleCopy), (''x'', reactiveProperty, VNumber 1)]"

definition observerLostAfter :: val where
  "observerLostAfter = VObject plainShape
     [(''__ob__'', hiddenProperty, VUndefined), (''x'', reactiveProperty, VNumber 1)]"

definition goneTables :: "nat \<Rightarrow> ProxyTable" where
  "goneTables = (\<lambda>r. [])(1 := [(VString ''gone'', VUndefined)])"

text \<open>
  An observed object with a computed property: the accessor is not backed, its getter
  answers a class instance at every read, its setter stores nothing.
\<close>

definition computedProperty :: PropertyFlags where
  "computedProperty = \<lparr> configurable = True, enumerable = True, writable = False,
                         hasGetter = True, hasSetter = True, backed = False \<rparr>"

definition observedWithComputed :: val where
  "observedWithComputed = VObject plainShape
     [(''__ob__'', hiddenProperty, VProxy (VString ''ob'') classInstance),
      (''when'', computedProperty, classInstance)]"

section \<open>Module trees (src/plugins/vuex/vuex-decorators.ts)\<close>

text \<open>
  The initial state tree of a store.  A value is a primitive, an object (or function) given
  by its own enumerable properties in \<open>for ... in\<close> order, or a marker: the object
  \<open>{[symbols.vuexModule]: module}\<close> that \<open>wrapState\<close> makes.  A module instance has an
  identity, its \<open>namespace\<close> (\<open>None\<close> while it is \<open>undefined\<close>) and its \<open>state\<close>.  The
  tree is a tree: every module instance is referenced by one marker.
\<close>

datatype primitive = PUndefined | PNull | PBoolean bool | PNumber int | PString string

datatype stateVal =
    SPrimitive primitive
  | SObject "(string \<times> stateVal) list"
  | SMarker VuexModule
and VuexModule =
    VuexModule (moduleId: nat) (namespace: "string option") (state: stateVal)

text \<open>
  \<open>unwrapStateRecursively(obj, namespace, modules)\<close> returns the unwrapped value and the
  list \<open>modules\<close> after the pushes.  The list holds references: the module pushed at a
  marker is the one whose \<open>state\<close> is assigned when the recursion comes back, so its entry
  (the one at the position of the push) is updated then.
\<close>

definition propertyNamespace :: "string option \<Rightarrow> string \<Rightarrow> string option" where
  "propertyNamespace ns propertyName =
     (case ns of None \<Rightarrow> Some propertyName | Some n \<Rightarrow> Some (n @ ''/'' @ propertyName))"

fun unwrapStateRecursively ::
      "stateVal \<Rightarrow> string option \<Rightarrow> VuexModule list \<Rightarrow> stateVal \<times> VuexModule list"
  and unwrapOwnProperties ::
      "(string \<times> stateVal) list \<Rightarrow> string option \<Rightarrow> VuexModule list
         \<Rightarrow> (string \<times> stateVal) list \<times> VuexModule list" where
  "unwrapStateRecursively (SPrimitive p) ns modules = (SPrimitive p, modules)"
| "unwrapStateRecursively (SMarker (VuexModule i moduleNamespace moduleState)) ns modules =
     (let assigned = (if moduleNamespace = None then ns else moduleNamespace);
          pushed = modules @ [VuexModule i assigned moduleState];
          (unwrapped, modules') = unwrapStateRecursively moduleState ns pushed
      in (unwrapped, modules'[length modules := VuexModule i assigned unwrapped]))"
| "unwrapStateRecursively (SObject ps) ns modules =
     (let (ps', modules') = unwrapOwnProperties ps ns modules in (SObject ps', modules'))"
| "unwrapOwnProperties [] ns modules = ([], modules)"
| "unwrapOwnProperties ((propertyName, oldValue) # ps) ns modules =
     (let (newValue, modules') =
            unwrapStateRecursively oldValue (propertyNamespace ns propertyName) modules;
          (ps', modules'') = unwrapOwnProperties ps ns modules'
      in ((propertyName, newValue) # ps', modules''))"

subsection \<open>The walk as the specification words it\<close>

text \<open>
  The path of keys from the root to a place of the tree, slash-delimited; the root itself has
  no namespace.
\<close>

fun namespaceOfPath :: "string list \<Rightarrow> string option" where
  "namespaceOfPath [] = None"
| "namespaceOfPath (k # ks) = Some (foldl (\<lambda>n propertyName. n @ ''/'' @ propertyName) k ks)"

text \<open>
  The markers of a tree in pre-order, each with the path that leads to it: a marker comes
  before the markers inside its module's own state, and these are found under the same path.
\<close>

fun markersPreorder :: "string list \<Rightarrow> stateVal \<Rightarrow> (string list \<times> VuexModule) list"
  and markersOfProperties :: "string list \<Rightarrow> (string \<times> stateVal) list \<Rightarrow> (string list \<times> VuexModule) list" where
  "markersPreorder path (SPrimitive p) = []"
| "markersPreorder path (SMarker (VuexModule i moduleNamespace moduleState)) =
     (path, VuexModule i moduleNamespace moduleState) # markersPreorder path moduleState"
| "markersPreorder path (SObject ps) = markersOfProperties path ps"
| "markersOfProperties path [] = []"
| "markersOfProperties path ((k, v) # ps) =
     markersPreorder (path @ [k]) v @ markersOfProperties path ps"

text \<open>The tree with every marker replaced by the unwrapped state of its module.\<close>

fun withoutMarkers :: "stateVal \<Rightarrow> stateVal"
  and withoutMarkersProperties :: "(string \<times> stateVal) list \<Rightarrow> (string \<times> stateVal) list" where
  "withoutMarkers (SPrimitive p) = SPrimitive p"
| "withoutMarkers (SMarker (VuexModule i moduleNamespace moduleState)) = withoutMarkers moduleState"
| "withoutMarkers (SObject ps) = SObject (withoutMarkersProperties ps)"
| "withoutMarkersProperties [] = []"
| "withoutMarkersProperties ((k, v) # ps) = (k, withoutMarkers v) # withoutMarkersProperties ps"

text \<open>
  A module as the walk leaves it: the namespace it had, or the path of its marker when it
  had none, and its state unwrapped.
\<close>

definition discovered :: "string list \<times> VuexModule \<Rightarrow> VuexModule" where
  "discovered pm =
     (case pm of (path, m) \<Rightarrow>
        VuexModule (moduleId m)
          (case namespace m of None \<Rightarrow> namespaceOfPath path | Some n \<Rightarrow> Some n)
          (withoutMarkers (state m)))"

subsection \<open>A sample store\<close>

definition leafModule :: "nat \<Rightarrow> string option \<Rightarrow> VuexModule" where
  "leafModule i ns = VuexModule i ns (SObject [(''n'', SPrimitive (PNumber (int i)))])"

definition shopModule :: VuexModule where
  "shopModule = VuexModule 1 None
     (SObject [(''title'', SPrimitive (PString ''shop'')),
               (''cart'', SMarker (leafModule 2 None)),
               (''user'', SMarker (leafModule 3 (Some ''account'')))])"

definition storeState :: stateVal where
  "storeState = SObject [(''shop'', SMarker shopModule), (''misc'', SObject [(''log'', SMarker (leafModule 4 None))])]"

section \<open>Module compilation (VuexModule.initVuexModule)\<close>

text \<open>
  A module instance as \<open>initVuexModule\<close> sees it: the members that \<open>getAllPropertyKeys\<close>
  lists, each with what the member currently is and with the metadata its decorator left,
  the store module under construction, the state object, the namespace and the private flag
  \<open>_vuexModuleInitialized\<close>.  The tables of the store module are written here as lists of
  named handlers; a table that is still \<open>undefined\<close> is the empty table the function makes
  of it.  \<open>registered\<close> is the trace of the assignments to these tables, latest last.
\<close>

datatype Member =
    DataValue nat
  | Method nat
  | ClassGetter nat
  | StateAccessor string
  | StoreGetterAccessor string
  | CommitFunction string
  | DispatchFunction string

record ActionSettings =
  actionName :: string
  actionRoot :: bool

record Metadata =
  isState :: "string option"
  isGetter :: "(string \<times> bool) option"
  isMutation :: "string option"
  isAction :: "ActionSettings option"

datatype Handler =
    InitModuleHandler
  | GetterHandler string
  | MutationHandler Member
  | ActionHandler Member

datatype TableName = Getters | Mutations | Actions

record StoreModule =
  namespaced :: "bool option"
  getters :: "(string \<times> Handler) list"
  mutations :: "(string \<times> Handler) list"
  actions :: "(string \<times> Handler) list"

record ModuleInstance =
  thisNamespace :: "string option"
  thisModule :: StoreModule
  thisState :: "(string \<times> Member) list"
  vuexModuleInitialized :: bool
  members :: "(string \<times> Member \<times> Metadata) list"
  registered :: "(TableName \<times> string) list"

definition initModuleAction :: string where
  "initModuleAction = ''__initVuexModule__''"

definition namespacePrefix :: "ModuleInstance \<Rightarrow> string" where
  "namespacePrefix this = (case thisNamespace this of None \<Rightarrow> [] | Some n \<Rightarrow> n @ ''/'')"

definition contextNamespacePrefix :: "ModuleInstance \<Rightarrow> string" where
  "contextNamespacePrefix this =
     (if namespaced (thisModule this) = Some True then [] else namespacePrefix this)"

text \<open>\<open>typeof this[propertyName] === "function"\<close>.\<close>

fun isFunction :: "Member \<Rightarrow> bool" where
  "isFunction (Method f) = True"
| "isFunction (CommitFunction n) = True"
| "isFunction (DispatchFunction n) = True"
| "isFunction m = False"

definition setMember :: "string \<Rightarrow> Member \<Rightarrow> ModuleInstance \<Rightarrow> ModuleInstance" where
  "setMember propertyName m this =
     this\<lparr> members := map (\<lambda>(k, old, md). if k = propertyName then (k, m, md) else (k, old, md))
                         (members this) \<rparr>"

definition registerHandler :: "TableName \<Rightarrow> string \<Rightarrow> Handler \<Rightarrow> ModuleInstance \<Rightarrow> ModuleInstance" where
  "registerHandler t n h this =
     (let m = thisModule this;
          m' = (case t of
                  Getters \<Rightarrow> m\<lparr> getters := AList.update n h (getters m) \<rparr>
                | Mutations \<Rightarrow> m\<lparr> mutations := AList.update n h (mutations m) \<rparr>
                | Actions \<Rightarrow> m\<lparr> actions := AList.update n h (actions m) \<rparr>)
      in this\<lparr> thisModule := m', registered := registered this @ [(t, n)] \<rparr>)"

text \<open>
  The body of the loop over the property names, for one name: the chain of
  \<open>if ... else if\<close> over the four kinds of metadata.
\<close>

definition hasGetterMetadata :: "Metadata \<Rightarrow> bool" where
  "hasGetterMetadata md = (case isGetter md of None \<Rightarrow> False | Some (n, hasGet) \<Rightarrow> hasGet)"

definition compileMember :: "ModuleInstance \<Rightarrow> string \<Rightarrow> ModuleInstance" where
  "compileMember this propertyName =
     (case map_of (members this) propertyName of
        None \<Rightarrow> this
      | Some (member, md) \<Rightarrow>
          if isState md \<noteq> None then
            setMember propertyName (StateAccessor (the (isState md)))
              (this\<lparr> thisState := AList.update (the (isState md)) member (thisState this) \<rparr>)
          else if hasGetterMetadata md then
            registerHandler Getters (fst (the (isGetter md))) (GetterHandler propertyName)
              (setMember propertyName (StoreGetterAccessor (fst (the (isGetter md)))) this)
          else if isMutation md \<noteq> None \<and> isFunction member then
            registerHandler Mutations (the (isMutation md)) (MutationHandler member)
              (setMember propertyName
                 (CommitFunction (contextNamespacePrefix this @ the (isMutation md))) this)
          else if isAction md \<noteq> None \<and> isFunction member then
            registerHandler Actions (actionName (the (isAction md))) (ActionHandler member)
              (setMember propertyName
                 (DispatchFunction
                    ((if actionRoot (the (isAction md)) then [] else contextNamespacePrefix this)
                     @ actionName (the (isAction md)))) this)
          else this)"

text \<open>
  What \<open>initVuexModule\<close> does when the flag is not set: set it, fill in the defaults,
  register the bootstrap action and compile the members.  \<open>getAllPropertyKeys\<close> is a
  \<open>Set\<close>, read before the loop.
\<close>

definition getAllPropertyKeys :: "ModuleInstance \<Rightarrow> string list" where
  "getAllPropertyKeys this = remdups (map fst (members this))"

definition compileModule :: "ModuleInstance \<Rightarrow> ModuleInstance" where
  "compileModule this =
     foldl compileMember
       (registerHandler Actions initModuleAction InitModuleHandler
          (this\<lparr> vuexModuleInitialized := True,
                 thisModule := (thisModule this)
                   \<lparr> namespaced := (case namespaced (thisModule this) of
                                      None \<Rightarrow> Some True | Some b \<Rightarrow> Some b) \<rparr> \<rparr>))
       (getAllPropertyKeys this)"

definition initVuexModule :: "ModuleInstance \<Rightarrow> ModuleInstance" where
  "initVuexModule this = (if vuexModuleInitialized this then this else compileModule this)"

subsection \<open>A sample module\<close>

definition noMetadata :: Metadata where
  "noMetadata = \<lparr> isState = None, isGetter = None, isMutation = None, isAction = None \<rparr>"

definition counterModule :: ModuleInstance where
  "counterModule =
     \<lparr> thisNamespace = Some ''counter'',
       thisModule = \<lparr> namespaced = Some False, getters = [], mutations = [], actions = [] \<rparr>,
       thisState = [],
       vuexModuleInitialized = False,
       members =
         [(''count'', DataValue 0, noMetadata\<lparr> isState := Some ''count'' \<rparr>),
          (''double'', ClassGetter 1, noMetadata\<lparr> isGetter := Some (''double'', True) \<rparr>),
          (''increment'', Method 2, noMetadata\<lparr> isMutation := Some ''increment'' \<rparr>),
          (''load'', Method 3,
             noMetadata\<lparr> isAction := Some \<lparr> actionName = ''load'', actionRoot = False \<rparr> \<rparr>),
          (''helper'', Method 4, noMetadata)],
       registered = [] \<rparr>"

definition counterModuleCompiled :: ModuleInstance where
  "counterModuleCompiled =
     \<lparr> thisNamespace = Some ''counter'',
       thisModule =
         \<lparr> namespaced = Some False,
           getters = [(''double'', GetterHandler ''double'')],
           mutations = [(''increment'', MutationHandler (Method 2))],
           actions = [(''__initVuexModule__'', InitModuleHandler),
                      (''load'', ActionHandler (Method 3))] \<rparr>,
       thisState = [(''count'', DataValue 0)],
       vuexModuleInitialized = True,
       members =
         [(''count'', StateAccessor ''count'', noMetadata\<lparr> isState := Some ''count'' \<rparr>),
          (''double'', StoreGetterAccessor ''double'',
             noMetadata\<lparr> isGetter := Some (''double'', True) \<rparr>),
          (''increment'', CommitFunction ''counter/increment'',
             noMetadata\<lparr> isMutation := Some ''increment'' \<rparr>),
          (''load'', DispatchFunction ''counter/load'',
             noMetadata\<lparr> isAction := Some \<lparr> actionName = ''load'', actionRoot = False \<rparr> \<rparr>),
          (''helper'', Method 4, noMetadata)],
       registered = [(Actions, ''__initVuexModule__''), (Getters, ''double''),
                     (Mutations, ''increment''), (Actions, ''load'')] \<rparr>"

section \<open>The synced-collections module (FirestoreCollectionsModule)\<close>

text \<open>
  The module keeps, per collection path, the record the store sees
  (\<open>CollectionSyncedList\<close>) and a private record (\<open>CollectionsInfo\<close>).  Everything it does
  to the outside is written into the state as well: the remote listeners and option
  watchers that are open (\<open>subscribeToCollection\<close> and \<open>store.watch\<close> return a function that
  closes them; a handle stands for it), the pending \<open>setTimeout\<close> timers with the time they
  are due, and the list of effects in the order they happened.  A subscriber is an object
  compared by identity, so it has one; its \<open>onError\<close> callback is named by a number.

  The \<open>onError\<close> callbacks are code of the callers.  What a callback does when it is called
  is its \<open>CallbackBehaviour\<close>: it returns, it throws, or it subscribes again (it calls
  \<open>syncCollection\<close> for the path, with the callback given, and returns).
\<close>

record CollectionSyncedList =
  syncedList :: "jsval list"
  syncEnabled :: bool
  syncing :: bool

record CollectionSubscriber =
  subscriberId :: nat
  onError :: "nat option"

record CollectionsInfo =
  unsubscribeFromSync :: "nat option"
  firstSync :: bool
  collectionSubscribers :: "CollectionSubscriber list"
  unsubscribeFromCollectionOptions :: "nat option"

datatype Effect =
    ListenerOpened nat string
  | ListenerClosed nat
  | WatcherOpened nat string
  | WatcherClosed nat
  | ErrorCallback nat string

datatype CallbackBehaviour = Returns | Throws | Resubscribes "nat option"

record ModuleState =
  collections :: "string \<rightharpoonup> CollectionSyncedList"
  collectionsInfo :: "string \<rightharpoonup> CollectionsInfo"
  unsubscribeWaitTime :: nat
  mapCollectionOptions :: "string \<Rightarrow> FirestoreObjectOptions"
  activeListeners :: "nat set"
  activeWatchers :: "nat set"
  nextHandle :: nat
  nextSubscriber :: nat
  now :: nat
  timers :: "(nat \<times> string \<times> nat) list"
  effects :: "Effect list"

text \<open>\<open>this.collectionOptions[path]\<close>: the getter has an entry for every key of \<open>collections\<close>.\<close>

definition collectionOptions :: "ModuleState \<Rightarrow> string \<Rightarrow> FirestoreObjectOptions option" where
  "collectionOptions s path =
     (if collections s path = None then None
      else Some (mapCollectionOptions s path))"

subsection \<open>Mutations\<close>

text \<open>
  \<open>createCollection\<close> assigns a new object to \<open>this.collections\<close>.  That sets off the
  option watchers that are registered; the store calls them back when the call that made
  the mutation has returned (\<open>watchersAfter\<close>, below).
\<close>

definition createCollection :: "string \<Rightarrow> ModuleState \<Rightarrow> ModuleState" where
  "createCollection path s =
     s\<lparr> collectionsInfo := (collectionsInfo s)(path \<mapsto>
            \<lparr> unsubscribeFromSync = None, firstSync = False, collectionSubscribers = [],
              unsubscribeFromCollectionOptions = None \<rparr>),
        collections := (collections s)(path \<mapsto>
            \<lparr> syncedList = [], syncEnabled = False, syncing = False \<rparr>) \<rparr>"

text \<open>
  The mutation \<open>updateCollectionFromSnapshot\<close> of the module (the function of the same name
  of firestore-utils does the work).  An undefined \<open>collectionInfo\<close> next to a defined
  \<open>collection\<close> makes \<open>collectionInfo.firstSync\<close> throw.
\<close>

definition commitUpdateCollectionFromSnapshot ::
  "string \<Rightarrow> string list \<Rightarrow> QuerySnapshot \<Rightarrow> ModuleState \<Rightarrow> error + ModuleState" where
  "commitUpdateCollectionFromSnapshot path refPath snapshot s =
     (case collections s path of
        None \<Rightarrow> Inr s
      | Some collection \<Rightarrow>
          (case collectionsInfo s path of
             None \<Rightarrow> Inl TypeError
           | Some collectionInfo \<Rightarrow>
               (case updateCollectionFromSnapshot
                       (if firstSync collectionInfo then [] else syncedList collection)
                       (mapCollectionOptions s path) refPath snapshot of
                  Inl e \<Rightarrow> Inl e
                | Inr l \<Rightarrow>
                    Inr (s\<lparr> collections := (collections s)(path \<mapsto>
                               collection\<lparr> syncedList := l, syncing := False \<rparr>),
                            collectionsInfo := (collectionsInfo s)(path \<mapsto>
                               collectionInfo\<lparr> firstSync := False \<rparr>) \<rparr>))))"

definition setSyncStatus :: "string \<Rightarrow> bool \<Rightarrow> bool \<Rightarrow> bool \<Rightarrow> ModuleState \<Rightarrow> ModuleState" where
  "setSyncStatus path enabled isSyncing resetCollection s =
     (case collections s path of
        None \<Rightarrow> s
      | Some collection \<Rightarrow>
          if resetCollection
          then s\<lparr> collections := (collections s)(path := None),
                  collectionsInfo := (collectionsInfo s)(path := None) \<rparr>
          else s\<lparr> collections := (collections s)(path \<mapsto>
                     collection\<lparr> syncEnabled := enabled, syncing := isSyncing \<rparr>) \<rparr>)"

definition clearCollectionSubscribers :: "string \<Rightarrow> ModuleState \<Rightarrow> ModuleState" where
  "clearCollectionSubscribers path s =
     (case collectionsInfo s path of
        None \<Rightarrow> s
      | Some collectionInfo \<Rightarrow>
          s\<lparr> collectionsInfo := (collectionsInfo s)(path \<mapsto>
                 collectionInfo\<lparr> collectionSubscribers := [] \<rparr>) \<rparr>)"

subsection \<open>Starting and stopping the sync of a path\<close>

definition startCollectionSync :: "string \<Rightarrow> ModuleState \<Rightarrow> error + ModuleState" where
  "startCollectionSync path s =
     (let s1 = (if collections s path = None then createCollection path s else s)
      in case collections s1 path of
           None \<Rightarrow> Inl TypeError
         | Some collection \<Rightarrow>
             (case collectionsInfo s1 path of
                None \<Rightarrow> Inl TypeError
              | Some collectionInfo \<Rightarrow>
                  (let s2 =
                         (if \<not> syncEnabled collection then
                            setSyncStatus path True True False
                              (s1\<lparr> collectionsInfo := (collectionsInfo s1)(path \<mapsto>
                                       collectionInfo\<lparr> firstSync := True,
                                                       unsubscribeFromSync := Some (nextHandle s1) \<rparr>),
                                    activeListeners := insert (nextHandle s1) (activeListeners s1),
                                    nextHandle := Suc (nextHandle s1),
                                    effects := effects s1 @ [ListenerOpened (nextHandle s1) path] \<rparr>)
                          else s1)
                   in case collectionsInfo s2 path of
                        None \<Rightarrow> Inl TypeError
                      | Some collectionInfo2 \<Rightarrow>
                          Inr (s2\<lparr> collectionsInfo := (collectionsInfo s2)(path \<mapsto>
                                      collectionInfo2\<lparr> unsubscribeFromCollectionOptions :=
                                                         Some (nextHandle s2) \<rparr>),
                                   activeWatchers := insert (nextHandle s2) (activeWatchers s2),
                                   nextHandle := Suc (nextHandle s2),
                                   effects := effects s2 @ [WatcherOpened (nextHandle s2) path] \<rparr>))))"

definition closeListener :: "string \<Rightarrow> CollectionsInfo \<Rightarrow> ModuleState \<Rightarrow> ModuleState" where
  "closeListener path collectionInfo s =
     (case unsubscribeFromSync collectionInfo of
        None \<Rightarrow> s
      | Some h \<Rightarrow>
          s\<lparr> collectionsInfo := (collectionsInfo s)(path \<mapsto>
                 collectionInfo\<lparr> unsubscribeFromSync := None \<rparr>),
             activeListeners := activeListeners s - {h},
             effects := effects s @ [ListenerClosed h] \<rparr>)"

definition closeWatcher :: "string \<Rightarrow> CollectionsInfo \<Rightarrow> ModuleState \<Rightarrow> ModuleState" where
  "closeWatcher path collectionInfo s =
     (case unsubscribeFromCollectionOptions collectionInfo of
        None \<Rightarrow> s
      | Some w \<Rightarrow>
          s\<lparr> collectionsInfo := (collectionsInfo s)(path \<mapsto>
                 collectionInfo\<lparr> unsubscribeFromCollectionOptions := None \<rparr>),
             activeWatchers := activeWatchers s - {w},
             effects := effects s @ [WatcherClosed w] \<rparr>)"

definition stopCollectionSync :: "string \<Rightarrow> bool \<Rightarrow> ModuleState \<Rightarrow> error + ModuleState" where
  "stopCollectionSync path resetCollection s =
     (case collections s path of
        None \<Rightarrow> Inr s
      | Some collection \<Rightarrow>
          if \<not> syncEnabled collection then Inr s
          else
            (case collectionsInfo s path of
               None \<Rightarrow> Inl TypeError
             | Some collectionInfo \<Rightarrow>
                 (let s1 = closeListener path collectionInfo s;
                      s2 = (case collectionsInfo s1 path of
                              None \<Rightarrow> s1
                            | Some collectionInfo1 \<Rightarrow> closeWatcher path collectionInfo1 s1)
                  in Inr (setSyncStatus path False False resetCollection s2))))"

text \<open>
  The callback that \<open>startCollectionSync\<close> gives to \<open>store.watch\<close>: when the options of
  the path have changed and the record is sync-enabled, the sync is stopped and started
  again.
\<close>

definition onOptionsChanged :: "string \<Rightarrow> ModuleState \<Rightarrow> error + ModuleState" where
  "onOptionsChanged path s =
     (case collections s path of
        None \<Rightarrow> Inr s
      | Some collection \<Rightarrow>
          if syncEnabled collection
          then (case stopCollectionSync path False s of
                  Inl e \<Rightarrow> Inl e
                | Inr s1 \<Rightarrow> startCollectionSync path s1)
          else Inr s)"

subsection \<open>Subscribing\<close>

text \<open>
  \<open>syncCollection\<close> returns the state and the \<open>unsubscribe\<close> closure, which is the path
  and the subscriber it captured.  \<open>unsubscribe\<close> only sets a timer; \<open>unsubscribeTimeout\<close>
  is the function the timer runs.
\<close>

definition needsStart :: "string \<Rightarrow> ModuleState \<Rightarrow> error + bool" where
  "needsStart path s =
     (case collections s path of
        None \<Rightarrow> Inr True
      | Some collection \<Rightarrow>
          if \<not> syncEnabled collection then Inr True
          else (case collectionsInfo s path of
                  None \<Rightarrow> Inl TypeError
                | Some collectionInfo \<Rightarrow> Inr (collectionSubscribers collectionInfo = [])))"

definition pushSubscriber :: "string \<Rightarrow> nat option \<Rightarrow> ModuleState \<Rightarrow> error + (ModuleState \<times> string \<times> nat)" where
  "pushSubscriber path callback s =
     (case collectionsInfo s path of
        None \<Rightarrow> Inl TypeError
      | Some collectionInfo \<Rightarrow>
          Inr (s\<lparr> collectionsInfo := (collectionsInfo s)(path \<mapsto>
                      collectionInfo\<lparr> collectionSubscribers :=
                        collectionSubscribers collectionInfo
                        @ [\<lparr> subscriberId = nextSubscriber s, onError = callback \<rparr>] \<rparr>),
                   nextSubscriber := Suc (nextSubscriber s) \<rparr>,
               path, nextSubscriber s))"

definition syncCollection :: "string \<Rightarrow> nat option \<Rightarrow> ModuleState \<Rightarrow> error + (ModuleState \<times> string \<times> nat)" where
  "syncCollection path callback s =
     (case needsStart path s of
        Inl e \<Rightarrow> Inl e
      | Inr True \<Rightarrow>
          (case startCollectionSync path s of
             Inl e \<Rightarrow> Inl e
           | Inr s1 \<Rightarrow> pushSubscriber path callback s1)
      | Inr False \<Rightarrow> pushSubscriber path callback s)"

definition unsubscribe :: "string \<times> nat \<Rightarrow> ModuleState \<Rightarrow> ModuleState" where
  "unsubscribe closure s =
     s\<lparr> timers := timers s @ [(now s + unsubscribeWaitTime s, fst closure, snd closure)] \<rparr>"

text \<open>\<open>indexOf\<close> and \<open>splice(index, 1)\<close>: the first occurrence of the subscriber is removed.\<close>

fun removeSubscriber :: "nat \<Rightarrow> CollectionSubscriber list \<Rightarrow> CollectionSubscriber list" where
  "removeSubscriber i [] = []"
| "removeSubscriber i (x # xs) = (if subscriberId x = i then xs else x # removeSubscriber i xs)"

definition unsubscribeTimeout :: "string \<times> nat \<Rightarrow> ModuleState \<Rightarrow> error + ModuleState" where
  "unsubscribeTimeout closure s =
     (case collectionsInfo s (fst closure) of
        None \<Rightarrow> Inr s
      | Some collectionInfo \<Rightarrow>
          (let remaining = removeSubscriber (snd closure) (collectionSubscribers collectionInfo);
               s1 = s\<lparr> collectionsInfo := (collectionsInfo s)(fst closure \<mapsto>
                          collectionInfo\<lparr> collectionSubscribers := remaining \<rparr>) \<rparr>
           in if remaining = [] then stopCollectionSync (fst closure) False s1 else Inr s1))"

subsection \<open>Stream errors\<close>

text \<open>
  The error callback that \<open>startCollectionSync\<close> gives to \<open>subscribeToCollection\<close>: it reads
  \<open>collectionInfo\<close> first, stops the sync, calls \<open>onError\<close> of every subscriber that has
  one and clears the subscribers.

  \<open>notifySubscribers\<close> is the \<open>for ... of\<close> loop over \<open>collectionInfo.collectionSubscribers\<close>,
  at index \<open>i\<close>.  The loop reads the array anew at every step, and the array is the one the
  private record of the path holds (nothing replaces the record or its array while the loop
  runs), so a subscriber that a callback adds is visited as well.  A callback that throws
  ends the loop and the error callback with it.  The loop need not end; \<open>fuel\<close> bounds the
  number of steps, and \<open>None\<close> says that it was used up.  The result is what was thrown, if
  anything, and the state that is left.
\<close>

fun notifySubscribers ::
  "(nat \<Rightarrow> CallbackBehaviour) \<Rightarrow> nat \<Rightarrow> string \<Rightarrow> string \<Rightarrow> nat \<Rightarrow> ModuleState
     \<Rightarrow> (error option \<times> ModuleState) option" where
  "notifySubscribers behaviour 0 path err i s = None"
| "notifySubscribers behaviour (Suc fuel) path err i s =
     (case collectionsInfo s path of
        None \<Rightarrow> Some (None, s)
      | Some collectionInfo \<Rightarrow>
          if length (collectionSubscribers collectionInfo) \<le> i then Some (None, s)
          else
            (case onError (collectionSubscribers collectionInfo ! i) of
               None \<Rightarrow> notifySubscribers behaviour fuel path err (Suc i) s
             | Some callback \<Rightarrow>
                 (let s1 = s\<lparr> effects := effects s @ [ErrorCallback callback err] \<rparr>
                  in case behaviour callback of
                       Returns \<Rightarrow> notifySubscribers behaviour fuel path err (Suc i) s1
                     | Throws \<Rightarrow> Some (Some CallbackError, s1)
                     | Resubscribes callback' \<Rightarrow>
                         (case syncCollection path callback' s1 of
                            Inl e \<Rightarrow> Some (Some e, s1)
                          | Inr r \<Rightarrow>
                              notifySubscribers behaviour fuel path err (Suc i) (fst r)))))"

definition onStreamError ::
  "(nat \<Rightarrow> CallbackBehaviour) \<Rightarrow> nat \<Rightarrow> string \<Rightarrow> string \<Rightarrow> ModuleState
     \<Rightarrow> (error option \<times> ModuleState) option" where
  "onStreamError behaviour fuel path err s =
     (case stopCollectionSync path False s of
        Inl e \<Rightarrow> Some (Some e, s)
      | Inr s1 \<Rightarrow>
          (case collectionsInfo s path of
             None \<Rightarrow> Some (None, s1)
           | Some collectionInfo \<Rightarrow>
               (case notifySubscribers behaviour fuel path err 0 s1 of
                  None \<Rightarrow> None
                | Some (Some e, s2) \<Rightarrow> Some (Some e, s2)
                | Some (None, s2) \<Rightarrow> Some (None, clearCollectionSubscribers path s2))))"

subsection \<open>Option watchers\<close>

text \<open>
  \<open>createCollection\<close> replaces the \<open>collections\<close> object of the state, which the getter
  \<open>collectionOptions\<close> reads.  When the call that made the mutation has returned, the store
  evaluates the watched expressions again and calls back the watchers whose value is an
  object; a watcher whose value is the same string as before is not called back.  The
  watchers concerned are those registered before the mutation, in the order they were
  registered, and each is called only if it is still active when its turn comes.  A
  callback that throws ends alone.
\<close>

fun isObjectOptions :: "FirestoreObjectOptions \<Rightarrow> bool" where
  "isObjectOptions (OptString p) = False"
| "isObjectOptions opts = True"

definition openedWatchers :: "Effect list \<Rightarrow> (nat \<times> string) list" where
  "openedWatchers es =
     concat (map (\<lambda>e. case e of WatcherOpened w p \<Rightarrow> [(w, p)] | _ \<Rightarrow> []) es)"

definition firedWatchers :: "ModuleState \<Rightarrow> (nat \<times> string) list" where
  "firedWatchers s =
     filter (\<lambda>w. fst w \<in> activeWatchers s \<and> isObjectOptions (mapCollectionOptions s (snd w)))
       (openedWatchers (effects s))"

definition runWatcher :: "ModuleState \<Rightarrow> nat \<times> string \<Rightarrow> ModuleState" where
  "runWatcher s w =
     (if fst w \<in> activeWatchers s
      then (case onOptionsChanged (snd w) s of Inl e \<Rightarrow> s | Inr s' \<Rightarrow> s')
      else s)"

text \<open>
  The state when the watchers have run after a call of \<open>syncCollection\<close> for \<open>path\<close> that
  took the state \<open>before\<close> to \<open>s\<close>: the call has made the mutation \<open>createCollection\<close>
  exactly when the path had no record.
\<close>

definition watchersAfter :: "string \<Rightarrow> ModuleState \<Rightarrow> ModuleState \<Rightarrow> ModuleState" where
  "watchersAfter path before s =
     (if collections before path = None then foldl runWatcher s (firedWatchers before) else s)"

subsection \<open>Time\<close>

text \<open>
  Letting \<open>d\<close> milliseconds pass runs the timers that are due by then, earliest first and
  in the order they were set when due together.  A timer function that throws ends alone;
  the timers after it still run.
\<close>

definition runTimer :: "ModuleState \<Rightarrow> nat \<times> string \<times> nat \<Rightarrow> ModuleState" where
  "runTimer s t = (case unsubscribeTimeout (snd t) s of Inl e \<Rightarrow> s | Inr s' \<Rightarrow> s')"

definition advance :: "nat \<Rightarrow> ModuleState \<Rightarrow> ModuleState" where
  "advance d s =
     (let t = now s + d;
          due = sort_key fst (filter (\<lambda>x. fst x \<le> t) (timers s));
          later = filter (\<lambda>x. \<not> fst x \<le> t) (timers s)
      in foldl runTimer (s\<lparr> now := t, timers := later \<rparr>) due)"

text \<open>The module before anything was synced.\<close>

definition newModule :: "nat \<Rightarrow> (string \<Rightarrow> FirestoreObjectOptions) \<Rightarrow> ModuleState" where
  "newModule waitTime mapOptions =
     \<lparr> collections = Map.empty, collectionsInfo = Map.empty,
       unsubscribeWaitTime = waitTime, mapCollectionOptions = mapOptions,
       activeListeners = {}, activeWatchers = {}, nextHandle = 0, nextSubscriber = 0,
       now = 0, timers = [], effects = [] \<rparr>"

subsection \<open>What an event and an error leave behind\<close>


text \<open>
  The calls of \<open>onError\<close> for a list of subscribers: one for every subscriber that has a
  callback, in the order of the list.
\<close>

definition errorCallbacks :: "string \<Rightarrow> CollectionSubscriber list \<Rightarrow> Effect list" where
  "errorCallbacks err subscribers =
     concat (map (\<lambda>subscriber. case onError subscriber of
                                 None \<Rightarrow> []
                               | Some callback \<Rightarrow> [ErrorCallback callback err])
                 subscribers)"

text \<open>The effects of closing what \<open>collectionInfo\<close> holds open: first the listener, then the watcher.\<close>

definition closingEffects :: "CollectionsInfo \<Rightarrow> Effect list" where
  "closingEffects collectionInfo =
     (case unsubscribeFromSync collectionInfo of None \<Rightarrow> [] | Some h \<Rightarrow> [ListenerClosed h])
     @ (case unsubscribeFromCollectionOptions collectionInfo of None \<Rightarrow> [] | Some w \<Rightarrow> [WatcherClosed w])"

subsection \<open>Sample module states\<close>

definition staleModule :: ModuleState where
  "staleModule = (newModule 5000 OptString)
     \<lparr> collections := [''users'' \<mapsto> \<lparr> syncedList = [docA], syncEnabled = False, syncing = False \<rparr>],
       collectionsInfo := [''users'' \<mapsto> \<lparr> unsubscribeFromSync = None, firstSync = False,
                                         collectionSubscribers = [],
                                         unsubscribeFromCollectionOptions = None \<rparr>] \<rparr>"

definition usersSyncing :: CollectionSyncedList where
  "usersSyncing = \<lparr> syncedList = [docA], syncEnabled = True, syncing = True \<rparr>"

definition usersInfoStarted :: CollectionsInfo where
  "usersInfoStarted = \<lparr> unsubscribeFromSync = Some 0, firstSync = True, collectionSubscribers = [],
                        unsubscribeFromCollectionOptions = Some 1 \<rparr>"

definition restartedModule :: ModuleState where
  "restartedModule = (newModule 5000 OptString)
     \<lparr> collections := [''users'' \<mapsto> usersSyncing],
       collectionsInfo := [''users'' \<mapsto> usersInfoStarted],
       activeListeners := {0}, activeWatchers := {1}, nextHandle := 2,
       effects := [ListenerOpened 0 ''users'', WatcherOpened 1 ''users''] \<rparr>"


definition usersSynced :: CollectionSyncedList where
  "usersSynced = \<lparr> syncedList = [docA, docB], syncEnabled = True, syncing = False \<rparr>"

definition usersInfoSubscribed :: CollectionsInfo where
  "usersInfoSubscribed =
     \<lparr> unsubscribeFromSync = Some 0, firstSync = False,
       collectionSubscribers = [\<lparr> subscriberId = 0, onError = Some 7 \<rparr>,
                                \<lparr> subscriberId = 1, onError = None \<rparr>,
                                \<lparr> subscriberId = 2, onError = Some 9 \<rparr>],
       unsubscribeFromCollectionOptions = Some 1 \<rparr>"

definition syncedModule :: ModuleState where
  "syncedModule = (newModule 5000 OptString)
     \<lparr> collections := [''users'' \<mapsto> usersSynced],
       collectionsInfo := [''users'' \<mapsto> usersInfoSubscribed],
       activeListeners := {0}, activeWatchers := {1}, nextHandle := 2, nextSubscriber := 3,
       effects := [ListenerOpened 0 ''users'', WatcherOpened 1 ''users''] \<rparr>"

subsection \<open>Runs of the module\<close>

text \<open>
  What happens to one path from outside: a caller subscribes (\<open>syncCollection\<close> with its
  callback, and then the watchers that the call has set off), a caller calls the
  \<open>unsubscribe\<close> function it got for a subscriber, time passes.  \<open>runEvents\<close> is the state after a list of events; \<open>holdsThroughout P\<close> says that
  no event of the list throws and that \<open>P\<close> holds in the state after each of them.
\<close>

datatype Event = Subscribe "nat option" | Unsubscribe nat | Advance nat

definition step :: "string \<Rightarrow> Event \<Rightarrow> ModuleState \<Rightarrow> error + ModuleState" where
  "step path e s =
     (case e of
        Subscribe callback \<Rightarrow>
          (case syncCollection path callback s of
             Inl x \<Rightarrow> Inl x
           | Inr r \<Rightarrow> Inr (watchersAfter path s (fst r)))
      | Unsubscribe i \<Rightarrow> Inr (unsubscribe (path, i) s)
      | Advance d \<Rightarrow> Inr (advance d s))"


fun runEvents :: "string \<Rightarrow> Event list \<Rightarrow> ModuleState \<Rightarrow> error + ModuleState" where
  "runEvents path [] s = Inr s"
| "runEvents path (e # es) s =
     (case step path e s of Inl x \<Rightarrow> Inl x | Inr s' \<Rightarrow> runEvents path es s')"


definition subscriberIds :: "string \<Rightarrow> ModuleState \<Rightarrow> nat list" where
  "subscriberIds path s =
     (case collectionsInfo s path of None \<Rightarrow> []
      | Some i \<Rightarrow> map subscriberId (collectionSubscribers i))"


definition enabledAt :: "string \<Rightarrow> ModuleState \<Rightarrow> bool" where
  "enabledAt path s = (case collections s path of None \<Rightarrow> False | Some c \<Rightarrow> syncEnabled c)"


text \<open>
  \<open>n\<close> subscribe calls on a new module (they get the subscribers \<open>0 .. n - 1\<close>), any
  time \<open>d0\<close>, then the \<open>n\<close> unsubscribe calls, the \<open>i\<close>-th followed by the time
  \<open>ds ! i\<close>, then one more subscribe call and any time \<open>dLast\<close>.  The time from the first
  unsubscribe call to the last subscribe call is the sum of \<open>ds\<close>.
\<close>

definition scenario :: "nat \<Rightarrow> nat option \<Rightarrow> nat \<Rightarrow> nat list \<Rightarrow> nat \<Rightarrow> Event list" where
  "scenario n callback d0 ds dLast =
     replicate n (Subscribe callback) @ [Advance d0]
     @ concat (map (\<lambda>(i, d). [Unsubscribe i, Advance d]) (zip [0..<n] ds))
     @ [Subscribe callback, Advance dLast]"





subsection \<open>Reachable states of the module\<close>

text \<open>
  The states the module gets into from a new module: callers subscribe and unsubscribe,
  time passes, the remote listener delivers an event or an error, an option watcher is
  called back (because the options of a path have changed, or after \<open>createCollection\<close>).
  An event whose application throws leaves the state as it was (the mutation assigns
  nothing before \<open>updateCollectionFromSnapshot\<close> has returned), so only the events that are
  applied make a step.  An error callback makes a step also when a subscriber's callback
  throws: the step leads to the state that is left then.
\<close>

inductive reachable :: "ModuleState \<Rightarrow> bool" where
  new: "reachable (newModule waitTime mapOptions)"
| subscribed: "reachable s \<Longrightarrow> syncCollection path callback s = Inr r \<Longrightarrow> reachable (fst r)"
| unsubscribed: "reachable s \<Longrightarrow> reachable (unsubscribe closure s)"
| time: "reachable s \<Longrightarrow> reachable (advance d s)"
| event: "reachable s \<Longrightarrow> commitUpdateCollectionFromSnapshot path refPath snapshot s = Inr s'
           \<Longrightarrow> reachable s'"
| failed: "reachable s \<Longrightarrow> onStreamError behaviour fuel path err s = Some (thrown, s')
           \<Longrightarrow> reachable s'"
| options: "reachable s \<Longrightarrow> onOptionsChanged path (s\<lparr> mapCollectionOptions := mapOptions \<rparr>) = Inr s'
           \<Longrightarrow> reachable s'"

text \<open>
  A listener is open for a path when a handle that was given out for the path has not been
  closed.
\<close>

definition listenerOpenFor :: "string \<Rightarrow> ModuleState \<Rightarrow> bool" where
  "listenerOpenFor path s = (\<exists>h \<in> activeListeners s. ListenerOpened h path \<in> set (effects s))"

text \<open>
  What the module keeps true of its two tables and the open listeners: every record has its
  private record; an open listener of a path is the one its private record holds, and the
  record is sync-enabled; handles are given out in increasing order, each for one path.
\<close>

definition consistentParts ::
  "(string \<rightharpoonup> CollectionSyncedList) \<Rightarrow> (string \<rightharpoonup> CollectionsInfo) \<Rightarrow> nat set \<Rightarrow> nat
     \<Rightarrow> Effect list \<Rightarrow> bool" where
  "consistentParts C I A n E =
     ((\<forall>p. C p \<noteq> None \<longrightarrow> I p \<noteq> None)
      \<and> (\<forall>h p. h \<in> A \<longrightarrow> ListenerOpened h p \<in> set E \<longrightarrow>
             (\<exists>c i. C p = Some c \<and> syncEnabled c \<and> I p = Some i \<and> unsubscribeFromSync i = Some h))
      \<and> (\<forall>h p. ListenerOpened h p \<in> set E \<longrightarrow> h < n)
      \<and> (\<forall>h p p'. ListenerOpened h p \<in> set E \<longrightarrow> ListenerOpened h p' \<in> set E \<longrightarrow> p = p'))"

definition consistent :: "ModuleState \<Rightarrow> bool" where
  "consistent s =
     consistentParts (collections s) (collectionsInfo s) (activeListeners s) (nextHandle s) (effects s)"

definition opensNothing :: "Effect list \<Rightarrow> bool" where
  "opensNothing X = (\<forall>h p. ListenerOpened h p \<notin> set X)"


section \<open>Properties of diff application\<close>

lemma splice_insert:
  "0 \<le> i \<Longrightarrow> i \<le> int (length xs) \<Longrightarrow> splice xs i 0 [d] = take (nat i) xs @ [d] @ drop (nat i) xs"
  by (simp add: splice_def Let_def)

lemma splice_replace:
  "0 \<le> i \<Longrightarrow> i < int (length xs) \<Longrightarrow> splice xs i 1 [d] = xs[nat i := d]"
proof -
  assume a: "0 \<le> i" "i < int (length xs)"
  then have m: "min 1 (int (length xs) - i) = 1" by simp
  have n: "nat (i + 1) = Suc (nat i)" using a by simp
  show ?thesis using a by (simp add: splice_def Let_def m n upd_conv_take_nth_drop)
qed

lemma splice_remove:
  "0 \<le> i \<Longrightarrow> i < int (length xs) \<Longrightarrow> splice xs i 1 [] = take (nat i) xs @ drop (Suc (nat i)) xs"
proof -
  assume a: "0 \<le> i" "i < int (length xs)"
  then have m: "min 1 (int (length xs) - i) = 1" by simp
  have n: "nat (i + 1) = Suc (nat i)" using a by simp
  show ?thesis using a by (simp add: splice_def Let_def m n)
qed

lemma arrayGet_in: "0 \<le> i \<Longrightarrow> i < int (length xs) \<Longrightarrow> arrayGet xs i = xs ! nat i"
  by (simp add: arrayGet_def)

lemma insert_at_props:
  assumes "n \<le> length ys"
  shows "length (take n ys @ [d] @ drop n ys) = Suc (length ys)"
    and "(take n ys @ [d] @ drop n ys) ! n = d"
    and "take n (take n ys @ [d] @ drop n ys) @ drop (Suc n) (take n ys @ [d] @ drop n ys) = ys"
proof -
  have lt: "length (take n ys) = n" using assms by simp
  show "length (take n ys @ [d] @ drop n ys) = Suc (length ys)" using assms by simp
  show "(take n ys @ [d] @ drop n ys) ! n = d"
    using lt by (simp add: nth_append)
  show "take n (take n ys @ [d] @ drop n ys) @ drop (Suc n) (take n ys @ [d] @ drop n ys) = ys"
    using lt by simp
qed

lemma insert_after_remove:
  fixes d :: 'a and xs :: "'a list"
  assumes "0 \<le> i" "i < int (length xs)" "0 \<le> j" "j < int (length xs)"
  shows "length (splice (splice xs i 1 []) j 0 [d]) = length xs"
    and "splice (splice xs i 1 []) j 0 [d] ! nat j = d"
    and "take (nat j) (splice (splice xs i 1 []) j 0 [d]) @ drop (Suc (nat j)) (splice (splice xs i 1 []) j 0 [d])
         = take (nat i) xs @ drop (Suc (nat i)) xs"
proof -
  define ys where "ys = take (nat i) xs @ drop (Suc (nat i)) xs"
  have ys: "splice xs i 1 [] = ys" using assms by (simp add: splice_remove ys_def)
  have ly: "Suc (length ys) = length xs" using assms by (simp add: ys_def)
  have j: "j \<le> int (length ys)" using assms ly by linarith
  have nj: "nat j \<le> length ys" using j assms by simp
  have r: "splice ys j 0 [d] = take (nat j) ys @ [d] @ drop (nat j) ys"
    using splice_insert[OF assms(3) j] by simp
  show "length (splice (splice xs i 1 []) j 0 [d]) = length xs"
    unfolding ys r using insert_at_props(1)[OF nj] ly by simp
  show "splice (splice xs i 1 []) j 0 [d] ! nat j = d"
    unfolding ys r using insert_at_props(2)[OF nj] by simp
  show "take (nat j) (splice (splice xs i 1 []) j 0 [d]) @ drop (Suc (nat j)) (splice (splice xs i 1 []) j 0 [d])
         = take (nat i) xs @ drop (Suc (nat i)) xs"
    unfolding ys r using insert_at_props(3)[OF nj] by (simp add: ys_def)
qed

lemma applyCollectionChanges_append:
  "applyCollectionChanges collection (changes1 @ changes2) opts =
     applyCollectionChanges (applyCollectionChanges collection changes1 opts) changes2 opts"
  by (simp add: applyCollectionChanges_def)

lemma applyCollectionChanges_single:
  "applyCollectionChanges collection [c] opts = applyDocumentChange collection c opts"
  by (simp add: applyCollectionChanges_def)

lemma added_in_range:
  assumes "changeType c = Added" "0 \<le> newIndex c" "newIndex c \<le> int (length collection)"
  shows "applyCollectionChanges collection [c] opts =
           take (nat (newIndex c)) collection
           @ [applyDocumentChanges JNull (changeDoc c) opts]
           @ drop (nat (newIndex c)) collection"
  using assms by (simp add: applyCollectionChanges_single applyDocumentChange_def splice_insert)

lemma modified_same_index:
  assumes "changeType c = Modified" "0 \<le> oldIndex c" "oldIndex c < int (length collection)"
    "newIndex c = oldIndex c"
  shows "applyCollectionChanges collection [c] opts =
           collection[nat (oldIndex c) :=
             applyDocumentChanges (collection ! nat (oldIndex c)) (changeDoc c) opts]"
  using assms
  by (simp add: applyCollectionChanges_single applyDocumentChange_def splice_replace arrayGet_in)

lemma modified_moved:
  assumes "changeType c = Modified" "0 \<le> oldIndex c" "oldIndex c < int (length collection)"
    "0 \<le> newIndex c" "newIndex c < int (length collection)" "newIndex c \<noteq> oldIndex c"
  shows "length (applyCollectionChanges collection [c] opts) = length collection
       \<and> applyCollectionChanges collection [c] opts ! nat (newIndex c) =
           applyDocumentChanges (collection ! nat (oldIndex c)) (changeDoc c) opts
       \<and> take (nat (newIndex c)) (applyCollectionChanges collection [c] opts)
           @ drop (Suc (nat (newIndex c))) (applyCollectionChanges collection [c] opts) =
           take (nat (oldIndex c)) collection @ drop (Suc (nat (oldIndex c))) collection"
proof -
  have e: "applyCollectionChanges collection [c] opts =
      splice (splice collection (oldIndex c) 1 []) (newIndex c) 0
        [applyDocumentChanges (collection ! nat (oldIndex c)) (changeDoc c) opts]"
    using assms by (simp add: applyCollectionChanges_single applyDocumentChange_def arrayGet_in)
  show ?thesis unfolding e
    using insert_after_remove[OF assms(2) assms(3) assms(4) assms(5)] by blast
qed

lemma removed_in_range:
  assumes "changeType c = Removed" "0 \<le> oldIndex c" "oldIndex c < int (length collection)"
  shows "applyCollectionChanges collection [c] opts =
           take (nat (oldIndex c)) collection @ drop (Suc (nat (oldIndex c))) collection"
  using assms by (simp add: applyCollectionChanges_single applyDocumentChange_def splice_remove)

text \<open>
  C1 (diff application is order-preserving), for indices that lie in the list.  The changes
  of an event are applied one after the other, in the order of \<open>docChanges()\<close>: applying
  \<open>changes1 @ changes2\<close> is applying \<open>changes1\<close> and then \<open>changes2\<close> to the result.
  For one change \<open>c\<close> on a list \<open>collection\<close>:
  \<^item> \<open>added\<close> with \<open>0 \<le> newIndex \<le> length\<close>: the new document sits at \<open>newIndex\<close>, the
    elements before and after it are the old ones in their order;
  \<^item> \<open>modified\<close> with \<open>oldIndex = newIndex\<close> inside the list: the element at that index is
    replaced and nothing else changes (so the length is the same);
  \<^item> \<open>modified\<close> with \<open>oldIndex \<noteq> newIndex\<close>, both inside the list: the length is unchanged,
    the updated document is the element at \<open>newIndex\<close>, and the rest of the result is the old
    list without its element at \<open>oldIndex\<close> (the item appears once, at \<open>newIndex\<close>);
  \<^item> \<open>removed\<close> with \<open>oldIndex\<close> inside the list: the element at \<open>oldIndex\<close> is deleted.
\<close>

theorem applyCollectionChanges_order_preserving:
  "applyCollectionChanges collection (changes1 @ changes2) opts =
     applyCollectionChanges (applyCollectionChanges collection changes1 opts) changes2 opts
   \<and> (changeType c = Added \<longrightarrow> 0 \<le> newIndex c \<longrightarrow> newIndex c \<le> int (length collection) \<longrightarrow>
        applyCollectionChanges collection [c] opts =
          take (nat (newIndex c)) collection
          @ [applyDocumentChanges JNull (changeDoc c) opts]
          @ drop (nat (newIndex c)) collection)
   \<and> (changeType c = Modified \<longrightarrow> 0 \<le> oldIndex c \<longrightarrow> oldIndex c < int (length collection) \<longrightarrow>
        newIndex c = oldIndex c \<longrightarrow>
        applyCollectionChanges collection [c] opts =
          collection[nat (oldIndex c) :=
            applyDocumentChanges (collection ! nat (oldIndex c)) (changeDoc c) opts])
   \<and> (changeType c = Modified \<longrightarrow> 0 \<le> oldIndex c \<longrightarrow> oldIndex c < int (length collection) \<longrightarrow>
        0 \<le> newIndex c \<longrightarrow> newIndex c < int (length collection) \<longrightarrow> newIndex c \<noteq> oldIndex c \<longrightarrow>
        length (applyCollectionChanges collection [c] opts) = length collection
        \<and> applyCollectionChanges collection [c] opts ! nat (newIndex c) =
            applyDocumentChanges (collection ! nat (oldIndex c)) (changeDoc c) opts
        \<and> take (nat (newIndex c)) (applyCollectionChanges collection [c] opts)
            @ drop (Suc (nat (newIndex c))) (applyCollectionChanges collection [c] opts) =
            take (nat (oldIndex c)) collection @ drop (Suc (nat (oldIndex c))) collection)
   \<and> (changeType c = Removed \<longrightarrow> 0 \<le> oldIndex c \<longrightarrow> oldIndex c < int (length collection) \<longrightarrow>
        applyCollectionChanges collection [c] opts =
          take (nat (oldIndex c)) collection @ drop (Suc (nat (oldIndex c))) collection)"
  using applyCollectionChanges_append added_in_range modified_same_index modified_moved
    removed_in_range
  by (intro conjI impI) blast+

theorem applyCollectionChanges_order_preserving_witness:
  "applyCollectionChanges [docA, docB, docC] [moveAToEnd] usersOptions =
     [docB, docC, JObj [(''id'', JStr ''a''), (''n'', JNum 1)]]
   \<and> length (applyCollectionChanges [docA, docB, docC] [moveAToEnd] usersOptions) = 3
   \<and> applyCollectionChanges [docA, docB, docC] [moveAToEnd] usersOptions ! 2 =
       applyDocumentChanges docA (changeDoc moveAToEnd) usersOptions"
  using applyCollectionChanges_order_preserving
    [of "[docA, docB, docC]" "[]" "[moveAToEnd]" usersOptions moveAToEnd]
  by (simp add: moveAToEnd_def applyCollectionChanges_def applyDocumentChange_def splice_def
      arrayGet_def applyDocumentChanges_def spreadInto_def usersOptions_def docA_def)

text \<open>
  Without the bounds the statement fails: the indices are passed to \<open>splice\<close> as they
  come, and \<open>splice\<close> clamps them.  On the empty list a \<open>modified\<close> change with
  \<open>oldIndex = newIndex = 0\<close> has nothing to replace and inserts the document, so the length
  changes.
\<close>

theorem modified_out_of_range_grows_list:
  "length (applyCollectionChanges [] [modifyFirst] usersOptions) \<noteq> length ([] :: jsval list)"
  by (simp add: modifyFirst_def applyCollectionChanges_def applyDocumentChange_def splice_def)

section \<open>Properties of reference-path resolution\<close>

lemma findDocument_none:
  "list_all (\<lambda>d. d \<noteq> JUndefined \<and> d \<noteq> JNull) docs \<Longrightarrow>
   find (\<lambda>d. getProp d ''id'' = JStr r) docs = None \<Longrightarrow> findDocument docs r i = Inr None"
  by (induction docs arbitrary: i) (auto split: if_splits)

lemma findDocument_some:
  "list_all (\<lambda>d. d \<noteq> JUndefined \<and> d \<noteq> JNull) docs \<Longrightarrow>
   find (\<lambda>d. getProp d ''id'' = JStr r) docs = Some d \<Longrightarrow>
   \<exists>j. findDocument docs r i = Inr (Some (j, d))"
  by (induction docs arbitrary: i) (auto split: if_splits)

lemma wellFormed_nonnull:
  "wellFormedCollection opts docs \<Longrightarrow> list_all (\<lambda>d. d \<noteq> JUndefined \<and> d \<noteq> JNull) docs"
  by (cases opts) (auto simp: list_all_iff)

lemma wellFormed_sub:
  assumes "wellFormedCollection opts docs"
    and "find (\<lambda>d. getProp d ''id'' = JStr r) docs = Some d"
    and "find (\<lambda>opt. collectionPath opt = sub) (subcollections opts) = Some subOptions"
    and "getProp d (name subOptions) = JArr ys"
  shows "wellFormedCollection subOptions ys"
proof -
  have d: "d \<in> set docs" using assms(2) by (auto simp: find_Some_iff)
  have s: "subOptions \<in> set (subcollections opts)" using assms(3) by (auto simp: find_Some_iff)
  obtain p n subs where o: "opts = Normalized p n subs" by (cases opts)
  have "\<forall>sub\<in>set subs. case getProp d (name sub) of
                          JArr ys \<Rightarrow> wellFormedCollection sub ys | _ \<Rightarrow> True"
    using assms(1) d unfolding o by (simp add: list_all_iff)
  then have "case getProp d (name subOptions) of
                          JArr ys \<Rightarrow> wellFormedCollection subOptions ys | _ \<Rightarrow> True"
    using s unfolding o by auto
  then show ?thesis using assms(4) by simp
qed

lemma unresolved_loop:
  "wellFormedCollection opts docs \<Longrightarrow> refPathUnresolved docs refPath opts \<Longrightarrow>
   object info = JArr docs \<Longrightarrow> options info = opts \<Longrightarrow>
   getObjectFromRefPathLoop refPath True info = Inr None"
proof (induction docs refPath opts arbitrary: info rule: refPathUnresolved.induct)
  case (1 docs opts)
  then show ?case by simp
next
  case (2 docs docId opts)
  then show ?case
    using findDocument_none[OF wellFormed_nonnull[OF "2.prems"(1)], of docId 0] by simp
next
  case (3 docs docId sub refPath opts)
  note nn = wellFormed_nonnull[OF "3.prems"(1)]
  show ?case
  proof (cases "find (\<lambda>d. getProp d ''id'' = JStr docId) docs")
    case None
    then show ?thesis using findDocument_none[OF nn None, of 0] "3.prems" by simp
  next
    case (Some d)
    obtain j where j: "findDocument docs docId 0 = Inr (Some (j, d))"
      using findDocument_some[OF nn Some] by blast
    have dn: "d \<noteq> JUndefined" "d \<noteq> JNull"
      using Some nn by (auto simp: find_Some_iff list_all_iff)
    show ?thesis
    proof (cases "find (\<lambda>opt. collectionPath opt = sub) (subcollections opts)")
      case None
      then show ?thesis using "3.prems" Some by simp
    next
      case so: (Some subOptions)
      show ?thesis
      proof (cases "getProp d (name subOptions)")
        case JUndefined
        then show ?thesis using j so dn "3.prems" by simp
      next
        case (JArr ys)
        have wf: "wellFormedCollection subOptions ys"
          using wellFormed_sub[OF "3.prems"(1) Some so JArr] .
        have un: "refPathUnresolved ys refPath subOptions"
          using "3.prems"(2) Some so JArr by simp
        show ?thesis
          using "3.IH"[OF Some so JArr wf un] j so dn JArr "3.prems" by simp
      qed (use "3.prems" Some so in simp_all)
    qed
  qed
qed

lemma unresolved_unchanged:
  assumes "wellFormedCollection (normalizeFirestoreObjectOptions opts) collection"
    and "refPathUnresolved collection refPath (normalizeFirestoreObjectOptions opts)"
  shows "updateCollectionFromSnapshot collection opts refPath snapshot = Inr collection"
proof -
  have "getObjectFromRefPath (JArr collection) True refPath (normalizeFirestoreObjectOptions opts)
          = Inr None"
    unfolding getObjectFromRefPath_def
    by (rule unresolved_loop[OF assms]) simp_all
  then show ?thesis by (simp add: updateCollectionFromSnapshot_def)
qed

lemma undeclared_loop:
  "wellFormedCollection opts docs \<Longrightarrow> refPathUndeclared docs refPath opts \<Longrightarrow>
   object info = JArr docs \<Longrightarrow> options info = opts \<Longrightarrow>
   getObjectFromRefPathLoop refPath True info = Inl TypeError"
proof (induction docs refPath opts arbitrary: info rule: refPathUndeclared.induct)
  case (1 docs opts)
  then show ?case by simp
next
  case (2 docs docId opts)
  then show ?case by simp
next
  case (3 docs docId sub refPath opts)
  note nn = wellFormed_nonnull[OF "3.prems"(1)]
  show ?case
  proof (cases "find (\<lambda>d. getProp d ''id'' = JStr docId) docs")
    case None
    then show ?thesis using "3.prems" by simp
  next
    case (Some d)
    obtain j where j: "findDocument docs docId 0 = Inr (Some (j, d))"
      using findDocument_some[OF nn Some] by blast
    have dn: "d \<noteq> JUndefined" "d \<noteq> JNull"
      using Some nn by (auto simp: find_Some_iff list_all_iff)
    show ?thesis
    proof (cases "find (\<lambda>opt. collectionPath opt = sub) (subcollections opts)")
      case None
      then show ?thesis using j "3.prems" by simp
    next
      case so: (Some subOptions)
      show ?thesis
      proof (cases "getProp d (name subOptions)")
        case (JArr ys)
        have wf: "wellFormedCollection subOptions ys"
          using wellFormed_sub[OF "3.prems"(1) Some so JArr] .
        have un: "refPathUndeclared ys refPath subOptions"
          using "3.prems"(2) Some so JArr by simp
        show ?thesis
          using "3.IH"[OF Some so JArr wf un] j so dn JArr "3.prems" by simp
      qed (use "3.prems" Some so in simp_all)
    qed
  qed
qed

lemma undeclared_throws:
  assumes "wellFormedCollection (normalizeFirestoreObjectOptions opts) collection"
    and "refPathUndeclared collection refPath (normalizeFirestoreObjectOptions opts)"
  shows "updateCollectionFromSnapshot collection opts refPath snapshot = Inl TypeError"
proof -
  have "getObjectFromRefPath (JArr collection) True refPath (normalizeFirestoreObjectOptions opts)
          = Inl TypeError"
    unfolding getObjectFromRefPath_def
    by (rule undeclared_loop[OF assms]) simp_all
  then show ?thesis by (simp add: updateCollectionFromSnapshot_def)
qed

text \<open>
  C10 (reference paths that do not resolve), for collections that hold documents.
  \<^item> When walking the reference path a document-id segment matches no document of the list
    it addresses, or the field of the subcollection that the options declare for a segment
    reads as \<open>undefined\<close> on the document, \<open>updateCollectionFromSnapshot\<close> returns normally
    and its result is the input collection itself, whatever the snapshot holds.
  \<^item> When the path resolves up to a document, at whatever depth, and the next segment is
    the path of no subcollection declared in the options there, the function does not
    return: it throws a \<open>TypeError\<close>.
\<close>

theorem updateCollectionFromSnapshot_unresolved_unchanged:
  "(wellFormedCollection (normalizeFirestoreObjectOptions opts) collection \<longrightarrow>
      refPathUnresolved collection refPath (normalizeFirestoreObjectOptions opts) \<longrightarrow>
      updateCollectionFromSnapshot collection opts refPath snapshot = Inr collection)
   \<and> (wellFormedCollection (normalizeFirestoreObjectOptions opts) collection \<longrightarrow>
      refPathUndeclared collection refPath (normalizeFirestoreObjectOptions opts) \<longrightarrow>
      updateCollectionFromSnapshot collection opts refPath snapshot = Inl TypeError)"
  using unresolved_unchanged undeclared_throws by blast

theorem updateCollectionFromSnapshot_unresolved_unchanged_witness:
  "updateCollectionFromSnapshot [userU1, userU2] usersWithPosts [''u1'', ''posts'', ''p9''] [addPost]
     = Inr [userU1, userU2]
   \<and> updateCollectionFromSnapshot [userU1, userU2] usersWithComments
       [''u1'', ''posts'', ''p1'', ''likes''] [addPost] = Inl TypeError"
  using updateCollectionFromSnapshot_unresolved_unchanged
    [where opts = usersWithPosts and collection = "[userU1, userU2]"
       and refPath = "[''u1'', ''posts'', ''p9'']" and snapshot = "[addPost]"]
    updateCollectionFromSnapshot_unresolved_unchanged
    [where opts = usersWithComments and collection = "[userU1, userU2]"
       and refPath = "[''u1'', ''posts'', ''p1'', ''likes'']" and snapshot = "[addPost]"]
  by (simp add: usersWithPosts_def usersWithComments_def userU1_def userU2_def objectPrototype_def)

lemma updateCollectionFromSnapshot_absent_field:
  "updateCollectionFromSnapshot [userU1, userU2] usersWithPosts [''u2'', ''posts''] [addPost]
     = Inr [userU1, userU2]"
  using unresolved_unchanged
    [of usersWithPosts "[userU1, userU2]" "[''u2'', ''posts'']" "[addPost]"]
  by (simp add: usersWithPosts_def userU1_def userU2_def objectPrototype_def)

lemma updateCollectionFromSnapshot_resolved:
  "updateCollectionFromSnapshot [userU1, userU2] usersWithPosts [''u1'', ''posts''] [addPost]
     = Inr [JObj [(''id'', JStr ''u1''),
                  (''posts'', JArr [JObj [(''id'', JStr ''p2'')], JObj [(''id'', JStr ''p1'')]])],
            userU2]"
  by (simp add: updateCollectionFromSnapshot_def getObjectFromRefPath_def usersWithPosts_def
      userU1_def userU2_def addPost_def applyCollectionChanges_def applyDocumentChange_def
      applyDocumentChanges_def spreadInto_def splice_def)

text \<open>
  A reference path that names a subcollection the options do not declare does not resolve
  either, and the document has no such field; the function throws instead of returning the
  collection.
\<close>

theorem updateCollectionFromSnapshot_undeclared_subcollection:
  "updateCollectionFromSnapshot [userU1, userU2] usersWithPosts [''u1'', ''likes''] [addPost]
     = Inl TypeError"
  by (simp add: updateCollectionFromSnapshot_def getObjectFromRefPath_def usersWithPosts_def
      userU1_def userU2_def)

text \<open>
  A declared subcollection whose name is a member of \<open>Object.prototype\<close>: the document has
  no field of its own with that name, but the read finds the inherited member.  The
  function goes on with it: it throws when the path ends there and the snapshot has a
  change (the member has no \<open>splice\<close>), it returns the collection when the snapshot has
  none, and it throws when a document is looked up in the member (\<open>Object\<close> has \<open>length\<close>
  1 and no element).
\<close>

lemma updateCollectionFromSnapshot_inherited_member:
  "updateCollectionFromSnapshot [userU1, userU2] usersWithConstructor [''u2'', ''constructor'']
     [addPost] = Inl TypeError
   \<and> updateCollectionFromSnapshot [userU1, userU2] usersWithConstructor [''u2'', ''constructor'']
       [] = Inr [userU1, userU2]
   \<and> updateCollectionFromSnapshot [userU1, userU2] usersWithConstructor
       [''u2'', ''constructor'', ''x''] [addPost] = Inl TypeError
   \<and> \<not> refPathUnresolved [userU1, userU2] [''u2'', ''constructor'']
         (normalizeFirestoreObjectOptions usersWithConstructor)"
  by (simp add: updateCollectionFromSnapshot_def getObjectFromRefPath_def usersWithConstructor_def
      userU1_def userU2_def objectPrototype_def)

section \<open>Properties of token minting\<close>

lemma loop_unfold:
  "generateProxyIdLoop rs old new t n =
     (if freshToken old new (rs n) then (Inr (rs n), Suc n)
      else if t - 1 > 0 then generateProxyIdLoop rs old new (t - 1) (Suc n)
      else (Inl ProxyIdError, Suc n))"
  by (subst generateProxyIdLoop.simps) (simp add: freshToken_def Let_def)

lemma loop_exhausted:
  "(\<forall>k \<le> m. \<not> freshToken old new (rs (n + k))) \<Longrightarrow>
   generateProxyIdLoop rs old new (int (Suc m)) n = (Inl ProxyIdError, n + Suc m)"
proof (induction m arbitrary: n)
  case 0
  then show ?case by (subst loop_unfold) simp
next
  case (Suc m)
  have nf: "\<not> freshToken old new (rs n)" using Suc.prems by (metis add.right_neutral le0)
  have rest: "\<forall>k \<le> m. \<not> freshToken old new (rs (Suc n + k))"
    using Suc.prems by (metis add_Suc_shift Suc_le_mono)
  have step: "int (Suc (Suc m)) - 1 = int (Suc m)" by simp
  show ?case
    by (subst loop_unfold) (simp only: nf step Suc.IH[OF rest], simp)
qed

lemma loop_first_fresh:
  "k \<le> m \<Longrightarrow> freshToken old new (rs (n + k)) \<Longrightarrow> (\<forall>j < k. \<not> freshToken old new (rs (n + j))) \<Longrightarrow>
   generateProxyIdLoop rs old new (int (Suc m)) n = (Inr (rs (n + k)), Suc (n + k))"
proof (induction m arbitrary: n k)
  case 0
  then show ?case by (subst loop_unfold) simp
next
  case (Suc m)
  show ?case
  proof (cases k)
    case 0
    then show ?thesis using Suc.prems by (subst loop_unfold) simp
  next
    case (Suc k')
    have nf: "\<not> freshToken old new (rs n)" using Suc.prems(3) Suc by (metis add.right_neutral zero_less_Suc)
    have a: "k' \<le> m" using Suc.prems(1) Suc by simp
    have b: "freshToken old new (rs (Suc n + k'))" using Suc.prems(2) Suc by simp
    have c: "\<forall>j < k'. \<not> freshToken old new (rs (Suc n + j))"
      using Suc.prems(3) Suc by (metis add_Suc_shift Suc_less_eq)
    have step: "int (Suc (Suc m)) - 1 = int (Suc m)" by simp
    show ?thesis
      by (subst loop_unfold) (simp only: nf step Suc.IH[OF a b c], simp add: Suc)
  qed
qed

lemma generateProxyId_exhausted:
  assumes "\<forall>k<100. \<not> freshToken old new (rs (n + k))"
  shows "generateProxyId rs old new n = (Inl ProxyIdError, n + 100)"
proof -
  have "\<forall>k \<le> 99. \<not> freshToken old new (rs (n + k))" using assms by simp
  from loop_exhausted[OF this] show ?thesis by (simp add: generateProxyId_def)
qed

lemma generateProxyId_first_fresh:
  assumes "k < 100" "freshToken old new (rs (n + k))" "\<forall>j<k. \<not> freshToken old new (rs (n + j))"
  shows "generateProxyId rs old new n = (Inr (rs (n + k)), Suc (n + k))"
proof -
  have "k \<le> 99" using assms(1) by simp
  from loop_first_fresh[OF this assms(2) assms(3)] show ?thesis by (simp add: generateProxyId_def)
qed

text \<open>
  C6 (token minting is bounded).  \<open>generateProxyId\<close> calls \<open>randomString\<close> at least once
  and at most 100 times.  When it returns a token, the token is a key of neither the old nor
  the new table; it returns the first of the next 100 draws that is fresh.  When none of
  the next 100 draws is fresh it throws the generation error, after exactly 100 draws, and
  it throws in no other case.
\<close>

theorem generateProxyId_bounded:
  "(case generateProxyId rs old new n of
      (Inr ident, n') \<Rightarrow> freshToken old new ident \<and> n < n' \<and> n' \<le> n + 100
    | (Inl e, n') \<Rightarrow> e = ProxyIdError \<and> n' = n + 100
                      \<and> (\<forall>k<100. \<not> freshToken old new (rs (n + k))))
   \<and> (\<forall>k<100. freshToken old new (rs (n + k)) \<longrightarrow> (\<forall>j<k. \<not> freshToken old new (rs (n + j))) \<longrightarrow>
          generateProxyId rs old new n = (Inr (rs (n + k)), Suc (n + k)))
   \<and> ((\<forall>k<100. \<not> freshToken old new (rs (n + k))) \<longrightarrow>
          generateProxyId rs old new n = (Inl ProxyIdError, n + 100))"
proof (intro conjI allI impI)
  show "case generateProxyId rs old new n of
      (Inr ident, n') \<Rightarrow> freshToken old new ident \<and> n < n' \<and> n' \<le> n + 100
    | (Inl e, n') \<Rightarrow> e = ProxyIdError \<and> n' = n + 100
                      \<and> (\<forall>k<100. \<not> freshToken old new (rs (n + k)))"
  proof (cases "\<exists>k<100. freshToken old new (rs (n + k))")
    case True
    define k where "k = (LEAST k. k < 100 \<and> freshToken old new (rs (n + k)))"
    have p: "k < 100 \<and> freshToken old new (rs (n + k))"
      unfolding k_def using True by (rule LeastI_ex)
    have q: "\<forall>j<k. \<not> freshToken old new (rs (n + j))"
    proof (intro allI impI)
      fix j assume "j < k"
      then have "\<not> (j < 100 \<and> freshToken old new (rs (n + j)))"
        unfolding k_def by (rule not_less_Least)
      moreover have "j < 100" using \<open>j < k\<close> p by simp
      ultimately show "\<not> freshToken old new (rs (n + j))" by simp
    qed
    show ?thesis using generateProxyId_first_fresh[of k old new rs n] p q by simp
  next
    case False
    then show ?thesis using generateProxyId_exhausted[of old new rs n] by simp
  qed
next
  fix k assume "k < 100" "freshToken old new (rs (n + k))" "\<forall>j<k. \<not> freshToken old new (rs (n + j))"
  then show "generateProxyId rs old new n = (Inr (rs (n + k)), Suc (n + k))"
    by (rule generateProxyId_first_fresh)
next
  assume "\<forall>k<100. \<not> freshToken old new (rs (n + k))"
  then show "generateProxyId rs old new n = (Inl ProxyIdError, n + 100)"
    by (rule generateProxyId_exhausted)
qed

theorem generateProxyId_bounded_witness:
  "generateProxyId (\<lambda>n. ''a'') takenTable [] 0 = (Inl ProxyIdError, 100)
   \<and> generateProxyId (\<lambda>n. if n < 2 then ''a'' else ''b'') [] takenTable 0 = (Inr ''b'', 3)"
proof
  show "generateProxyId (\<lambda>n. ''a'') takenTable [] 0 = (Inl ProxyIdError, 100)"
    using generateProxyId_bounded[where rs = "\<lambda>n. ''a''" and old = takenTable and new = "[]" and n = 0]
    by (simp add: freshToken_def mapHas_def takenTable_def)
  have "\<forall>k<100. freshToken [] takenTable (if 0 + k < 2 then ''a'' else ''b'') \<longrightarrow>
          (\<forall>j<k. \<not> freshToken [] takenTable (if 0 + j < 2 then ''a'' else ''b'')) \<longrightarrow>
          generateProxyId (\<lambda>n. if n < 2 then ''a'' else ''b'') [] takenTable 0
            = (Inr (if 0 + k < 2 then ''a'' else ''b''), Suc (0 + k))"
    using generateProxyId_bounded[where rs = "\<lambda>n. if n < 2 then ''a'' else ''b''"
        and old = "[]" and new = takenTable and n = 0]
    by blast
  from this[rule_format, of 2]
  show "generateProxyId (\<lambda>n. if n < 2 then ''a'' else ''b'') [] takenTable 0 = (Inr ''b'', 3)"
    by (simp add: freshToken_def mapHas_def takenTable_def)
qed

section \<open>Properties of the wrap/resolve walk\<close>

lemma stale_is_other_object: "isProxyWithoutTarget obj \<Longrightarrow> answersOtherObject obj"
  by (cases obj) (auto simp: answersOtherObject_def isObjectValue_def isProxyWithoutTarget_def)

lemma stale_resolves_to_undefined:
  assumes "isProxyWithoutTarget obj"
    and "\<not> mapHas (maps st oldProxyObjects) (getProxyId obj)"
  shows "initProxiesRecursively randomString oldProxyObjects newProxyObjects obj st =
           Inr (VUndefined, mapSet newProxyObjects (getProxyId obj) VUndefined st)"
proof (cases obj)
  case (VObject sh ps)
  then show ?thesis using assms by (simp add: mapGet_def mapHas_def Let_def)
qed (use assms in \<open>simp_all add: isProxyWithoutTarget_def\<close>)

text \<open>
  C8 (stale references), as the code has it.  When the walk meets a tokenized-without-target
  value whose token is not a key of the old table, no stale-reference condition is reported:
  \<^item> the call on the value returns normally, answers \<open>undefined\<close> in place of the value and
    stores the token in the new table with the value \<open>undefined\<close>;
  \<^item> in the loop over the properties of the object that holds the value (in a property
    whose read gives it), the walk then assigns the property.  A property that cannot be
    assigned (a read-only data property, an accessor without setter) makes the walk throw the
    \<open>TypeError\<close> of that assignment;
  \<^item> otherwise the walk goes on with the next properties, from the tables with the token
    stored, and when it returns the property holds \<open>undefined\<close> if it is a data property or
    a backed accessor, and what it held if its setter stores nothing;
  \<^item> the walk over the object itself, when it is one the walk goes into (neither a tokenized
    copy nor JSON-incompatible), throws or returns accordingly.
\<close>

theorem stale_token_becomes_undefined:
  assumes "isProxyWithoutTarget obj"
    and "\<not> mapHas (maps st oldProxyObjects) (getProxyId obj)"
  shows "initProxiesRecursively randomString oldProxyObjects newProxyObjects obj st =
           Inr (VUndefined, mapSet newProxyObjects (getProxyId obj) VUndefined st)
     \<and> (readValue f stored = obj \<longrightarrow> \<not> assignable f \<longrightarrow>
          initOwnProperties randomString oldProxyObjects newProxyObjects ((k, f, stored) # ps) st
            = Inl TypeError)
     \<and> (readValue f stored = obj \<longrightarrow> assignable f \<longrightarrow>
          initOwnProperties randomString oldProxyObjects newProxyObjects ps
            (mapSet newProxyObjects (getProxyId obj) VUndefined st) = Inr (ps', st') \<longrightarrow>
          initOwnProperties randomString oldProxyObjects newProxyObjects ((k, f, stored) # ps) st
            = Inr ((k, f, if isAccessor f \<and> \<not> backed f then stored else VUndefined) # ps', st'))
     \<and> (readValue f stored = obj \<longrightarrow> \<not> assignable f \<longrightarrow>
          \<not> isProxyWithoutTarget (VObject sh ((k, f, stored) # ps)) \<longrightarrow>
          \<not> isJsonIncompatible (VObject sh ((k, f, stored) # ps)) \<longrightarrow>
          initProxiesRecursively randomString oldProxyObjects newProxyObjects
            (VObject sh ((k, f, stored) # ps)) st = Inl TypeError)
     \<and> (readValue f stored = obj \<longrightarrow> assignable f \<longrightarrow>
          \<not> isProxyWithoutTarget (VObject sh ((k, f, stored) # ps)) \<longrightarrow>
          \<not> isJsonIncompatible (VObject sh ((k, f, stored) # ps)) \<longrightarrow>
          initOwnProperties randomString oldProxyObjects newProxyObjects ps
            (mapSet newProxyObjects (getProxyId obj) VUndefined st) = Inr (ps', st') \<longrightarrow>
          initProxiesRecursively randomString oldProxyObjects newProxyObjects
            (VObject sh ((k, f, stored) # ps)) st
            = Inr (VObject sh ((k, f, if isAccessor f \<and> \<not> backed f then stored else VUndefined) # ps'),
                   st'))"
proof -
  have a: "initProxiesRecursively randomString oldProxyObjects newProxyObjects obj st =
           Inr (VUndefined, mapSet newProxyObjects (getProxyId obj) VUndefined st)"
    using assms by (rule stale_resolves_to_undefined)
  note o = stale_is_other_object[OF assms(1)]
  have b: "initOwnProperties randomString oldProxyObjects newProxyObjects ((k, f, stored) # ps) st
            = Inl TypeError"
    if "readValue f stored = obj" "\<not> assignable f"
    using that a o by simp
  have c: "initOwnProperties randomString oldProxyObjects newProxyObjects ((k, f, stored) # ps) st
            = Inr ((k, f, if isAccessor f \<and> \<not> backed f then stored else VUndefined) # ps', st')"
    if r: "readValue f stored = obj" "assignable f"
      "initOwnProperties randomString oldProxyObjects newProxyObjects ps
            (mapSet newProxyObjects (getProxyId obj) VUndefined st) = Inr (ps', st')"
  proof -
    have g: "isAccessor f \<longrightarrow> hasGetter f"
      using r(1) assms(1) by (cases "hasGetter f") (auto simp: readValue_def isProxyWithoutTarget_def)
    have "afterWalk f stored VUndefined = (if isAccessor f \<and> \<not> backed f then stored else VUndefined)"
      using g by (auto simp: afterWalk_def)
    then show ?thesis using a r by simp
  qed
  have d: "initProxiesRecursively randomString oldProxyObjects newProxyObjects
            (VObject sh ((k, f, stored) # ps)) st = Inl TypeError"
    if "readValue f stored = obj" "\<not> assignable f"
      "\<not> isProxyWithoutTarget (VObject sh ((k, f, stored) # ps))"
      "\<not> isJsonIncompatible (VObject sh ((k, f, stored) # ps))"
    using b[OF that(1,2)] that(3,4)
    by (simp del: initOwnProperties.simps isJsonIncompatible.simps)
  have e: "initProxiesRecursively randomString oldProxyObjects newProxyObjects
            (VObject sh ((k, f, stored) # ps)) st
            = Inr (VObject sh ((k, f, if isAccessor f \<and> \<not> backed f then stored else VUndefined) # ps'),
                   st')"
    if "readValue f stored = obj" "assignable f"
      "\<not> isProxyWithoutTarget (VObject sh ((k, f, stored) # ps))"
      "\<not> isJsonIncompatible (VObject sh ((k, f, stored) # ps))"
      "initOwnProperties randomString oldProxyObjects newProxyObjects ps
            (mapSet newProxyObjects (getProxyId obj) VUndefined st) = Inr (ps', st')"
    using c[OF that(1,2,5)] that(3,4)
    by (simp del: initOwnProperties.simps isJsonIncompatible.simps)
  show ?thesis using a b c d e by blast
qed

theorem stale_token_becomes_undefined_witness:
  "initProxiesRecursively (\<lambda>n. ''t'') 0 1 staleCopy emptyProxyState =
     Inr (VUndefined, mapSet 1 (VString ''gone'') VUndefined emptyProxyState)
   \<and> initOwnProperties (\<lambda>n. ''t'') 0 1 [(''user'', frozenProperty, staleCopy)] emptyProxyState
       = Inl TypeError
   \<and> initOwnProperties (\<lambda>n. ''t'') 0 1 [(''user'', dataProperty, staleCopy)] emptyProxyState
       = Inr ([(''user'', dataProperty, VUndefined)],
              mapSet 1 (VString ''gone'') VUndefined emptyProxyState)
   \<and> initProxiesRecursively (\<lambda>n. ''t'') 0 1
       (VObject arrayShape [(''user'', frozenProperty, staleCopy)]) emptyProxyState = Inl TypeError
   \<and> initProxiesRecursively (\<lambda>n. ''t'') 0 1
       (VObject plainShape [(''user'', dataProperty, staleCopy)]) emptyProxyState
       = Inr (VObject plainShape [(''user'', dataProperty, VUndefined)],
              mapSet 1 (VString ''gone'') VUndefined emptyProxyState)"
proof -
  have h: "isProxyWithoutTarget staleCopy"
    by (simp add: staleCopy_def isProxyWithoutTarget_def proxyIdProperty_def readValue_def
        isAccessor_def dataProperty_def)
  have m: "\<not> mapHas (maps emptyProxyState 0) (getProxyId staleCopy)"
    by (simp add: emptyProxyState_def mapHas_def)
  have i: "getProxyId staleCopy = VString ''gone''"
    by (simp add: staleCopy_def proxyIdProperty_def readValue_def isAccessor_def dataProperty_def)
  have f: "readValue frozenProperty staleCopy = staleCopy" "\<not> assignable frozenProperty"
    by (simp_all add: readValue_def isAccessor_def frozenProperty_def assignable_def)
  have d: "readValue dataProperty staleCopy = staleCopy" "assignable dataProperty"
    "\<not> isAccessor dataProperty"
    by (simp_all add: readValue_def isAccessor_def dataProperty_def assignable_def)
  have e: "initOwnProperties (\<lambda>n. ''t'') 0 1 []
             (mapSet 1 (VString ''gone'') VUndefined emptyProxyState)
           = Inr ([], mapSet 1 (VString ''gone'') VUndefined emptyProxyState)"
    by simp
  have pa: "\<not> isProxyWithoutTarget (VObject arrayShape [(''user'', frozenProperty, staleCopy)])"
    "\<not> isJsonIncompatible (VObject arrayShape [(''user'', frozenProperty, staleCopy)])"
    by (simp_all add: isProxyWithoutTarget_def proxyIdProperty_def arrayShape_def)
  have pp: "\<not> isProxyWithoutTarget (VObject plainShape [(''user'', dataProperty, staleCopy)])"
    "\<not> isJsonIncompatible (VObject plainShape [(''user'', dataProperty, staleCopy)])"
    by (simp_all add: isProxyWithoutTarget_def proxyIdProperty_def plainShape_def dataProperty_def
        incompatibleProperty_def descriptorValue_def isAccessor_def staleCopy_def)
  show ?thesis
    using stale_token_becomes_undefined[OF h m, where randomString = "\<lambda>n. ''t''"
        and newProxyObjects = 1 and f = frozenProperty and stored = staleCopy and k = "''user''"
        and ps = "[]" and sh = arrayShape]
      stale_token_becomes_undefined[OF h m, where randomString = "\<lambda>n. ''t''"
        and newProxyObjects = 1 and f = dataProperty and stored = staleCopy and k = "''user''"
        and ps = "[]" and ps' = "[]" and sh = plainShape
        and st' = "mapSet 1 (VString ''gone'') VUndefined emptyProxyState"]
    unfolding i using f d e pa pp
    by (auto simp del: initOwnProperties.simps initProxiesRecursively.simps isJsonIncompatible.simps)
qed

text \<open>
  The walk over a state whose \<open>user\<close> field is a stale copy returns normally; the field has
  become \<open>undefined\<close> and no stale-reference condition reaches the caller.
\<close>

theorem stale_token_in_tree_not_reported:
  "initProxiesRecursively (\<lambda>n. ''t'') 0 1
     (VObject plainShape [(''user'', dataProperty, staleCopy)]) emptyProxyState =
   Inr (VObject plainShape [(''user'', dataProperty, VUndefined)],
        \<lparr> maps = (\<lambda>r. [])(1 := [(VString ''gone'', VUndefined)]), drawn = 0 \<rparr>)"
  by (simp add: staleCopy_def emptyProxyState_def isProxyWithoutTarget_def proxyIdProperty_def
      plainShape_def dataProperty_def incompatibleProperty_def descriptorValue_def
      answersOtherObject_def isObjectValue_def assignable_def readValue_def isAccessor_def
      afterWalk_def mapGet_def mapSet_def Let_def)

text \<open>
  The same state in an array, which the walk goes into whatever the flags of its
  properties are, with the field frozen: the walk throws, and the error is the
  \<open>TypeError\<close> of the assignment.
\<close>

lemma stale_token_in_frozen_array_throws:
  "initProxiesRecursively (\<lambda>n. ''t'') 0 1
     (VObject arrayShape [(''0'', frozenProperty, staleCopy)]) emptyProxyState = Inl TypeError"
  by (simp add: staleCopy_def emptyProxyState_def isProxyWithoutTarget_def proxyIdProperty_def
      arrayShape_def frozenProperty_def dataProperty_def
      answersOtherObject_def isObjectValue_def assignable_def readValue_def isAccessor_def
      mapGet_def mapSet_def Let_def)

section \<open>The walk run twice\<close>

lemma maps_mapSet: "maps (mapSet r k v st) r' = (if r' = r then AList.update k v (maps st r) else maps st r')"
  by (simp add: mapSet_def)

lemma drawn_mapSet: "drawn (mapSet r k v st) = drawn st"
  by (simp add: mapSet_def)

lemma tokens_mapSet: "tokens r (mapSet r k v st) = insert k (tokens r st)"
  by (simp add: tokens_def maps_mapSet dom_update)

lemma backed_read:
  "isAccessor f \<longrightarrow> hasGetter f \<and> backed f \<Longrightarrow> readValue f v = v \<and> afterWalk f v nv = nv"
  by (auto simp: readValue_def afterWalk_def)

lemma second_pass:
  "processed v \<Longrightarrow> backedAccessors v \<Longrightarrow>
     \<exists>st'. initProxiesRecursively rs old new v st = Inr (v, st') \<and> drawn st' = drawn st
          \<and> tokens new st' = tokens new st \<union> wrapperIds v"
  "processedProperties ps \<Longrightarrow> backedAccessorsProperties ps \<Longrightarrow>
     \<exists>st'. initOwnProperties rs old new ps st = Inr (ps, st') \<and> drawn st' = drawn st
          \<and> tokens new st' = tokens new st \<union> wrapperIdsProperties ps"
proof (induction v and ps arbitrary: st and st rule: processed_processedProperties.induct)
  case (1 sh ps)
  have p: "\<not> isProxyWithoutTarget (VObject sh ps)" "\<not> isJsonIncompatible (VObject sh ps)"
    "processedProperties ps"
    using "1.prems" by (simp_all del: isJsonIncompatible.simps)
  have q: "backedAccessorsProperties ps"
    using "1.prems"(2) p by (simp del: isJsonIncompatible.simps)
  obtain st' where a: "initOwnProperties rs old new ps st = Inr (ps, st')" "drawn st' = drawn st"
    "tokens new st' = tokens new st \<union> wrapperIdsProperties ps"
    using "1.IH"[OF p(3) q] by blast
  show ?case using p a by (simp del: isJsonIncompatible.simps)
next
  case (4 k f v ps)
  have q: "isAccessor f \<longrightarrow> hasGetter f \<and> backed f" "backedAccessors v"
    "backedAccessorsProperties ps"
    using "4.prems"(2) by simp_all
  have p: "processed v" "processedProperties ps" using "4.prems"(1) by simp_all
  note rd = backed_read[OF q(1)]
  obtain st1 where a: "initProxiesRecursively rs old new v st = Inr (v, st1)"
    "drawn st1 = drawn st" "tokens new st1 = tokens new st \<union> wrapperIds v"
    using "4.IH"(1)[OF p(1) q(2)] by blast
  obtain st2 where b: "initOwnProperties rs old new ps st1 = Inr (ps, st2)"
    "drawn st2 = drawn st1" "tokens new st2 = tokens new st1 \<union> wrapperIdsProperties ps"
    using "4.IH"(2)[OF p(2) q(3)] by blast
  have c: "\<not> answersOtherObject v"
    using p(1) by (cases v) (auto simp: answersOtherObject_def isObjectValue_def simp del: isJsonIncompatible.simps)
  show ?case using a b c by (auto simp: rd)
qed (simp_all add: tokens_mapSet drawn_mapSet)

lemma tableOk_update: "tableOk m \<Longrightarrow> entryOk k v \<Longrightarrow> tableOk (AList.update k v m)"
  by (induction m) (auto simp: tableOk_def)

lemma tableOk_mapGet: "tableOk m \<Longrightarrow> entryOk k (mapGet m k)"
proof (cases "map_of m k")
  case None
  then show ?thesis by (simp add: mapGet_def entryOk_def)
next
  case (Some v)
  assume "tableOk m"
  moreover have "(k, v) \<in> set m" using Some by (rule map_of_SomeD)
  ultimately have "entryOk k v" by (auto simp: tableOk_def list_all_iff)
  then show ?thesis using Some by (simp add: mapGet_def)
qed

lemma tableOk_mapSet:
  "tableOk (maps st old) \<Longrightarrow> entryOk k v \<Longrightarrow> tableOk (maps (mapSet new k v st) old)"
  by (cases "old = new") (simp_all add: maps_mapSet tableOk_update)

lemma entryOk_backed: "entryOk k v \<Longrightarrow> backedAccessors v"
  by (cases v) (auto simp: entryOk_def)

lemma entryOk_processed: "entryOk k v \<Longrightarrow> processed v \<and> wrapperIds v \<subseteq> {k}"
  by (cases v) (auto simp: entryOk_def)

lemma entryOk_object: "entryOk k v \<Longrightarrow> v = VUndefined \<or> isObjectValue v"
  by (cases v) (auto simp: entryOk_def isObjectValue_def)

lemma isObjectValue_cases: "isObjectValue v = (isProxy v \<or> (\<exists>sh ps. v = VObject sh ps))"
  by (cases v) (auto simp: isObjectValue_def)

lemma not_object_not_tokenized: "\<not> isObjectValue v \<Longrightarrow> \<not> isProxyWithoutTarget v"
  by (cases v) (auto simp: isObjectValue_def isProxyWithoutTarget_def)

lemma resultRel_refl: "resultRel v v"
  by (simp add: resultRel_def)

lemma resultRel_undefined: "resultRel VUndefined v' \<Longrightarrow> v' = VUndefined"
  by (simp add: resultRel_def isObjectValue_def)

lemma resultRel_typeof:
  assumes "resultRel v v'"
    and "typeof v \<in> set [''undefined'', ''boolean'', ''number'', ''string'', ''object'']"
  shows "typeof v' \<in> set [''undefined'', ''boolean'', ''number'', ''string'', ''object'']"
proof (cases "isObjectValue v")
  case True
  then have "v' = VUndefined \<or> isObjectValue v'" using assms(1) by (simp add: resultRel_def)
  then show ?thesis by (auto simp: isObjectValue_def)
next
  case False
  then show ?thesis using assms by (simp add: resultRel_def)
qed

lemma readProperty_rel_undefined:
  "list_all2 propertyRel ps ps' \<Longrightarrow> readProperty ps k = VUndefined \<Longrightarrow> readProperty ps' k = VUndefined"
proof (induction ps ps' rule: list_all2_induct)
  case Nil
  then show ?case by simp
next
  case (Cons p ps p' ps')
  obtain k1 f1 v1 where p: "p = (k1, f1, v1)" by (cases p) auto
  obtain k2 f2 v2 where p': "p' = (k2, f2, v2)" by (cases p') auto
  show ?case using Cons p p'
    by (auto simp: propertyRel_def readValue_def dest: resultRel_undefined split: if_splits)
qed

lemma readProperty_rel_truthy:
  "list_all2 propertyRel ps ps' \<Longrightarrow> \<not> isProxyWithoutTarget (readProperty ps k) \<Longrightarrow>
   truthyVal (readProperty ps' k) = truthyVal (readProperty ps k)"
proof (induction ps ps' rule: list_all2_induct)
  case Nil
  then show ?case by simp
next
  case (Cons p ps p' ps')
  obtain k1 f1 v1 where p: "p = (k1, f1, v1)" by (cases p) auto
  obtain k2 f2 v2 where p': "p' = (k2, f2, v2)" by (cases p') auto
  show ?case using Cons p p'
    by (auto simp: propertyRel_def resultRel_def readValue_def split: if_splits)
qed

lemma incompatibleProperty_rel:
  assumes "propertyRel p p'" and "\<not> incompatibleProperty b p"
  shows "\<not> incompatibleProperty b p'"
proof -
  obtain k f v where p: "p = (k, f, v)" by (cases p) auto
  obtain k' f' v' where p': "p' = (k', f', v')" by (cases p') auto
  have e: "k' = k" "f' = f" "resultRel v v'" using assms(1) p p' by (simp_all add: propertyRel_def)
  show ?thesis
  proof (cases "k = ''__ob__''")
    case True
    then show ?thesis using p' e by (simp add: incompatibleProperty_def)
  next
    case False
    have t: "typeof (descriptorValue f v) \<in> set [''undefined'', ''boolean'', ''number'', ''string'', ''object'']"
      using assms(2) p False by (simp add: incompatibleProperty_def)
    have t': "typeof (descriptorValue f v') \<in> set [''undefined'', ''boolean'', ''number'', ''string'', ''object'']"
    proof (cases "isAccessor f")
      case True
      then show ?thesis by (simp add: descriptorValue_def)
    next
      case False
      then have "typeof v \<in> set [''undefined'', ''boolean'', ''number'', ''string'', ''object'']"
        using t by (simp add: descriptorValue_def)
      from resultRel_typeof[OF e(3) this] show ?thesis using False by (simp add: descriptorValue_def)
    qed
    show ?thesis using assms(2) p p' e t' False by (simp add: incompatibleProperty_def)
  qed
qed

lemma list_ex_incompatible_rel:
  "list_all2 propertyRel ps ps' \<Longrightarrow> \<not> list_ex (incompatibleProperty b) ps \<Longrightarrow>
   \<not> list_ex (incompatibleProperty b) ps'"
  by (induction ps ps' rule: list_all2_induct) (auto dest: incompatibleProperty_rel)

lemma plain_object_stays_plain:
  assumes rel: "list_all2 propertyRel ps ps'"
    and nt: "\<not> isProxyWithoutTarget (VObject sh ps)"
    and nj: "\<not> isJsonIncompatible (VObject sh ps)"
    and ob: "\<not> isProxyWithoutTarget (readProperty ps ''__ob__'')"
  shows "\<not> isProxyWithoutTarget (VObject sh ps') \<and> \<not> isJsonIncompatible (VObject sh ps')"
proof
  have "readProperty ps proxyIdProperty = VUndefined" using nt by (simp add: isProxyWithoutTarget_def)
  from readProperty_rel_undefined[OF rel this]
  show "\<not> isProxyWithoutTarget (VObject sh ps')" by (simp add: isProxyWithoutTarget_def)
  have b: "truthyVal (readProperty ps' ''__ob__'') = truthyVal (readProperty ps ''__ob__'')"
    using readProperty_rel_truthy[OF rel ob] .
  show "\<not> isJsonIncompatible (VObject sh ps')"
    using nj list_ex_incompatible_rel[OF rel, of "truthyVal (readProperty ps ''__ob__'')"]
    by (auto simp: b split: if_splits)
qed

lemma first_pass:
  "tableOk (maps st old) \<Longrightarrow> observersIntact v \<Longrightarrow> backedAccessors v \<Longrightarrow>
   initProxiesRecursively rs old new v st = Inr (v', st') \<Longrightarrow>
     processed v' \<and> backedAccessors v' \<and> wrapperIds v' \<subseteq> tokens new st' \<and> resultRel v v'
     \<and> passResult old new st st'"
  "tableOk (maps st old) \<Longrightarrow> observersIntactProperties ps \<Longrightarrow> backedAccessorsProperties ps \<Longrightarrow>
   initOwnProperties rs old new ps st = Inr (ps', st') \<Longrightarrow>
     processedProperties ps' \<and> backedAccessorsProperties ps'
     \<and> wrapperIdsProperties ps' \<subseteq> tokens new st'
     \<and> list_all2 propertyRel ps ps' \<and> passResult old new st st'"
proof (induction rs old new v st and rs old new ps st arbitrary: v' st' and ps' st'
    rule: initProxiesRecursively_initOwnProperties.induct)
  case (1 rs old new i t st)
  have e: "entryOk i (VProxy i t)" by (simp add: entryOk_def)
  have r: "v' = VProxy i t" "st' = mapSet new i (VProxy i t) st" using "1.prems"(4) by auto
  show ?case unfolding r passResult_def
    using tableOk_mapSet[OF _ e]
    by (auto simp: tokens_mapSet resultRel_def isObjectValue_def)
next
  case (2 rs old new sh ps st)
  show ?case
  proof (cases "isProxyWithoutTarget (VObject sh ps)")
    case True
    define ident where "ident = getProxyId (VObject sh ps)"
    have r: "v' = mapGet (maps st old) ident" "st' = mapSet new ident (mapGet (maps st old) ident) st"
      using "2.prems"(4) True by (auto simp: Let_def ident_def simp del: isJsonIncompatible.simps)
    have e: "entryOk ident (mapGet (maps st old) ident)" using tableOk_mapGet[OF "2.prems"(1)] .
    have o: "isObjectValue (VObject sh ps)" by (simp add: isObjectValue_def)
    show ?thesis unfolding r passResult_def
      using tableOk_mapSet[OF _ e] entryOk_processed[OF e] entryOk_object[OF e]
        entryOk_backed[OF e] True o
      by (auto simp: tokens_mapSet resultRel_def)
  next
    case nt: False
    show ?thesis
    proof (cases "isJsonIncompatible (VObject sh ps)")
      case True
      obtain res n where g: "generateProxyId rs (maps st old) (maps st new) (drawn st) = (res, n)"
        by (cases "generateProxyId rs (maps st old) (maps st new) (drawn st)") auto
      obtain ident where i: "res = Inr ident"
        using "2.prems"(4) nt True g by (cases res) (auto simp del: isJsonIncompatible.simps)
      define p where "p = VProxy (VString ident) (VObject sh ps)"
      have r: "v' = p" "st' = mapSet new (VString ident) p (st\<lparr> drawn := n \<rparr>)"
        using "2.prems"(4) nt True g i
        by (auto simp: Let_def createNonEnumerableProxy_def p_def simp del: isJsonIncompatible.simps)
      have e: "entryOk (VString ident) p" by (simp add: entryOk_def p_def)
      have t: "\<And>r. tableOk (maps st r) \<Longrightarrow> tableOk (maps (mapSet new (VString ident) p (st\<lparr> drawn := n \<rparr>)) r)"
        using tableOk_mapSet[OF _ e, of "st\<lparr> drawn := n \<rparr>"] by simp
      have k: "tokens new (st\<lparr> drawn := n \<rparr>) = tokens new st" by (simp add: tokens_def)
      show ?thesis unfolding r passResult_def
        using t k nt
        by (auto simp: tokens_mapSet resultRel_def isObjectValue_def p_def)
    next
      case nj: False
      obtain ps1 where r0: "initOwnProperties rs old new ps st = Inr (ps1, st')" "v' = VObject sh ps1"
        using "2.prems"(4) nt nj
        by (auto simp del: isJsonIncompatible.simps split: sum.splits prod.splits)
      have ob: "\<not> isProxyWithoutTarget (readProperty ps ''__ob__'')" "observersIntactProperties ps"
        using "2.prems"(2) by simp_all
      have ba: "backedAccessorsProperties ps"
        using "2.prems"(3) nt nj by (simp del: isJsonIncompatible.simps)
      have ih: "processedProperties ps1 \<and> backedAccessorsProperties ps1
         \<and> wrapperIdsProperties ps1 \<subseteq> tokens new st'
         \<and> list_all2 propertyRel ps ps1 \<and> passResult old new st st'"
        using "2.IH"[OF nt nj "2.prems"(1) ob(2) ba r0(1)] .
      have pl: "\<not> isProxyWithoutTarget (VObject sh ps1) \<and> \<not> isJsonIncompatible (VObject sh ps1)"
        using plain_object_stays_plain[OF _ nt nj ob(1)] ih by blast
      show ?thesis unfolding r0(2)
        using ih pl nt by (simp add: resultRel_def isObjectValue_def del: isJsonIncompatible.simps)
    qed
  qed
next
  case (12 rs old new k f oldValue ps st)
  have q: "isAccessor f \<longrightarrow> hasGetter f \<and> backed f" "backedAccessors oldValue"
    "backedAccessorsProperties ps"
    using "12.prems"(3) by simp_all
  have rd: "readValue f oldValue = oldValue" "\<And>nv. afterWalk f oldValue nv = nv"
    using backed_read[OF q(1)] by simp_all
  obtain nv st1 where a: "initProxiesRecursively rs old new (readValue f oldValue) st = Inr (nv, st1)"
    using "12.prems"(4) by (auto split: sum.splits)
  have w: "\<not> (answersOtherObject (readValue f oldValue) \<and> \<not> assignable f)"
    using "12.prems"(4) a by (auto split: if_splits)
  obtain ps1 where b: "initOwnProperties rs old new ps st1 = Inr (ps1, st')" "ps' = (k, f, nv) # ps1"
    using "12.prems"(4) a w by (auto simp: rd split: sum.splits if_splits)
  have o: "observersIntact oldValue" "observersIntactProperties ps" using "12.prems"(2) by simp_all
  have ih1: "processed nv \<and> backedAccessors nv \<and> wrapperIds nv \<subseteq> tokens new st1
      \<and> resultRel oldValue nv \<and> passResult old new st st1"
    using "12.IH"(1)[OF "12.prems"(1) _ _ a] o(1) q(2) by (simp add: rd)
  then have t1: "tableOk (maps st1 old)" using "12.prems"(1) by (simp add: passResult_def)
  have ih2: "processedProperties ps1 \<and> backedAccessorsProperties ps1
     \<and> wrapperIdsProperties ps1 \<subseteq> tokens new st'
     \<and> list_all2 propertyRel ps ps1 \<and> passResult old new st1 st'"
    using "12.IH"(2)[OF a _ w t1 o(2) q(3) b(1)] by simp
  have h: "propertyRel (k, f, oldValue) (k, f, nv)" using ih1 by (simp add: propertyRel_def)
  show ?case unfolding b(2) using ih1 ih2 h q(1)
    by (auto simp: passResult_def)
qed (auto simp: resultRel_def passResult_def isObjectValue_def)

lemma tableOk_empty: "tableOk []"
  by (simp add: tableOk_def)

lemma walk_keeps_tables_ok:
  assumes "tableOk (maps st old)" "observersIntact v" "backedAccessors v"
    and "initProxiesRecursively rs old new v st = Inr (v', st')"
    and "tableOk (maps st r)"
  shows "tableOk (maps st' r)"
  using first_pass(1)[OF assms(1,2,3,4)] assms(5) by (simp add: passResult_def)

text \<open>
  C7 (wrapping is idempotent), for trees whose observers are intact and whose accessor
  properties are backed by storage, and token tables as the walk leaves them.  When a walk
  over \<open>obj\<close> has returned \<open>obj'\<close>, a second walk over \<open>obj'\<close> with the same two tables
  returns \<open>obj'\<close> again (no value is wrapped or replaced), calls \<open>randomString\<close> not once
  (no token is minted) and leaves the set of tokens of the new table as it was.  A value
  that is a live wrapper is returned as it is and stored in the new table under the token
  it carries.  The two tables may be the same \<open>Map\<close>.
\<close>

theorem second_walk_mints_nothing:
  assumes "tableOk (maps st oldProxyObjects)"
    and "observersIntact obj"
    and "backedAccessors obj"
    and "initProxiesRecursively randomString oldProxyObjects newProxyObjects obj st = Inr (obj', st')"
  shows "(\<exists>st''. initProxiesRecursively randomString oldProxyObjects newProxyObjects obj' st'
                  = Inr (obj', st'')
              \<and> drawn st'' = drawn st'
              \<and> tokens newProxyObjects st'' = tokens newProxyObjects st')
       \<and> (isProxy obj' \<longrightarrow>
            initProxiesRecursively randomString oldProxyObjects newProxyObjects obj' st'
              = Inr (obj', mapSet newProxyObjects (getProxyId obj') obj' st'))"
proof
  have f: "processed obj'" "backedAccessors obj'" "wrapperIds obj' \<subseteq> tokens newProxyObjects st'"
    using first_pass(1)[OF assms] by simp_all
  obtain st'' where s: "initProxiesRecursively randomString oldProxyObjects newProxyObjects obj' st'
      = Inr (obj', st'')" "drawn st'' = drawn st'"
    "tokens newProxyObjects st'' = tokens newProxyObjects st' \<union> wrapperIds obj'"
    using second_pass(1)[OF f(1,2)] by blast
  have "tokens newProxyObjects st'' = tokens newProxyObjects st'" using s(3) f(3) by auto
  then show "\<exists>st''. initProxiesRecursively randomString oldProxyObjects newProxyObjects obj' st'
                  = Inr (obj', st'')
              \<and> drawn st'' = drawn st'
              \<and> tokens newProxyObjects st'' = tokens newProxyObjects st'"
    using s by blast
  show "isProxy obj' \<longrightarrow>
            initProxiesRecursively randomString oldProxyObjects newProxyObjects obj' st'
              = Inr (obj', mapSet newProxyObjects (getProxyId obj') obj' st')"
    by (cases obj') simp_all
qed

lemmas walk_defs = classInstance_def staleCopy_def plainShape_def dataProperty_def
  hiddenProperty_def reactiveProperty_def computedProperty_def tokenDraws_def emptyProxyState_def
  isProxyWithoutTarget_def proxyIdProperty_def incompatibleProperty_def descriptorValue_def
  answersOtherObject_def isObjectValue_def assignable_def readValue_def isAccessor_def
  afterWalk_def mapGet_def mapSet_def mapHas_def generateProxyId_def createNonEnumerableProxy_def
  Let_def fun_eq_iff

lemma sampleState_first_walk:
  "initProxiesRecursively tokenDraws 0 1 sampleState emptyProxyState =
     Inr (sampleStateWrapped, \<lparr> maps = sampleTables, drawn = 1 \<rparr>)"
  by (simp add: sampleState_def sampleStateWrapped_def sampleTables_def walk_defs)

theorem second_walk_mints_nothing_witness:
  "(\<exists>st''. initProxiesRecursively tokenDraws 0 1 sampleStateWrapped
                 \<lparr> maps = sampleTables, drawn = 1 \<rparr> = Inr (sampleStateWrapped, st'')
           \<and> drawn st'' = 1
           \<and> tokens 1 st'' = {VString ''t0'', VString ''gone''})"
proof -
  have t: "tableOk (maps emptyProxyState 0)" by (simp add: emptyProxyState_def tableOk_def)
  have o: "observersIntact sampleState"
    by (simp add: sampleState_def classInstance_def staleCopy_def isProxyWithoutTarget_def
        readValue_def isAccessor_def dataProperty_def proxyIdProperty_def)
  have b: "backedAccessors sampleState"
    by (simp add: sampleState_def classInstance_def staleCopy_def isAccessor_def dataProperty_def)
  show ?thesis
    using second_walk_mints_nothing[OF t o b sampleState_first_walk]
    by (auto simp: tokens_def sampleTables_def)
qed

text \<open>
  Without intact observers the second walk can mint.  The object below is observed and has
  a reactive (accessor) property, so the first walk takes it for JSON-compatible and walks
  into it; its \<open>__ob__\<close> is a stale tokenized copy, which the walk replaces by
  \<open>undefined\<close>.  For the second walk the object is no longer observed, the accessor makes it
  JSON-incompatible, and it is wrapped under a new token.
\<close>

theorem second_walk_mints_after_lost_observer:
  "initProxiesRecursively tokenDraws 0 1 observerLost emptyProxyState =
     Inr (observerLostAfter, \<lparr> maps = goneTables, drawn = 0 \<rparr>)
   \<and> initProxiesRecursively tokenDraws 0 1 observerLostAfter \<lparr> maps = goneTables, drawn = 0 \<rparr> =
     Inr (VProxy (VString ''t0'') observerLostAfter,
          \<lparr> maps = goneTables(1 := [(VString ''gone'', VUndefined),
                                      (VString ''t0'', VProxy (VString ''t0'') observerLostAfter)]),
            drawn = 1 \<rparr>)"
  by (simp add: observerLost_def observerLostAfter_def goneTables_def walk_defs)

text \<open>
  Without backed accessors the second walk can mint as well.  The object below is observed
  (its observer is wrapped already) and has a computed property whose getter answers a class
  instance and whose setter stores nothing.  Every walk wraps the answer under a new token
  and hands the wrapper to the setter; the object is after the walk what it was before.
\<close>

lemma second_walk_mints_for_computed_property:
  "initProxiesRecursively tokenDraws 0 1 observedWithComputed emptyProxyState =
     Inr (observedWithComputed,
          \<lparr> maps = (\<lambda>r. [])(1 := [(VString ''ob'', VProxy (VString ''ob'') classInstance),
                                   (VString ''t0'', VProxy (VString ''t0'') classInstance)]),
            drawn = 1 \<rparr>)
   \<and> initProxiesRecursively tokenDraws 0 1 observedWithComputed
       \<lparr> maps = (\<lambda>r. [])(1 := [(VString ''ob'', VProxy (VString ''ob'') classInstance),
                                (VString ''t0'', VProxy (VString ''t0'') classInstance)]),
         drawn = 1 \<rparr> =
     Inr (observedWithComputed,
          \<lparr> maps = (\<lambda>r. [])(1 := [(VString ''ob'', VProxy (VString ''ob'') classInstance),
                                   (VString ''t0'', VProxy (VString ''t0'') classInstance),
                                   (VString ''t1'', VProxy (VString ''t1'') classInstance)]),
            drawn = 2 \<rparr>)
   \<and> observersIntact observedWithComputed \<and> \<not> backedAccessors observedWithComputed"
  by (simp add: observedWithComputed_def walk_defs)

text \<open>The same walk when both tables are one \<open>Map\<close> (address 0).\<close>

lemma second_walk_shared_table:
  "initProxiesRecursively tokenDraws 0 0 sampleState emptyProxyState =
     Inr (sampleStateWrapped, \<lparr> maps = (\<lambda>r. [])(0 := sampleTables 1), drawn = 1 \<rparr>)"
  by (simp add: sampleState_def sampleStateWrapped_def sampleTables_def walk_defs)

section \<open>Properties of the module-tree walk\<close>

lemma propertyNamespace_path:
  "propertyNamespace (namespaceOfPath path) k = namespaceOfPath (path @ [k])"
  by (cases path) (simp_all add: propertyNamespace_def)

lemma update_pushed: "(xs @ x # ys)[length xs := y] = xs @ y # ys"
  by (simp add: list_update_append)

lemma unwrap_characterised:
  "unwrapStateRecursively obj (namespaceOfPath path) modules =
     (withoutMarkers obj, modules @ map discovered (markersPreorder path obj))"
  "unwrapOwnProperties ps (namespaceOfPath path) modules =
     (withoutMarkersProperties ps, modules @ map discovered (markersOfProperties path ps))"
proof (induction path obj and path ps arbitrary: modules and modules
    rule: markersPreorder_markersOfProperties.induct)
  case (2 path i moduleNamespace moduleState)
  show ?case
    by (cases moduleNamespace) (simp_all add: "2.IH" update_pushed discovered_def)
next
  case (5 path k v ps)
  show ?case
    by (simp add: propertyNamespace_path "5.IH")
qed simp_all

text \<open>
  C9 (module-tree walk).  Started at the root with no namespace, the walk returns the tree
  with every marker replaced by the unwrapped state of its module, and appends to the module
  list the modules of the markers in pre-order.  Each appended module has its state
  unwrapped, and as namespace the one it had before or, when it had none, the
  slash-delimited path of keys from the root to its marker.
\<close>

theorem unwrapStateRecursively_preorder:
  "unwrapStateRecursively obj None modules =
     (withoutMarkers obj, modules @ map discovered (markersPreorder [] obj))"
  using unwrap_characterised(1)[of obj "[]" modules] by simp

theorem unwrapStateRecursively_preorder_witness:
  "map namespace (snd (unwrapStateRecursively storeState None [])) =
     [Some ''shop'', Some ''shop/cart'', Some ''account'', Some ''misc/log'']
   \<and> map moduleId (snd (unwrapStateRecursively storeState None [])) = [1, 2, 3, 4]"
  unfolding unwrapStateRecursively_preorder[of storeState "[]"]
  by (simp add: storeState_def shopModule_def leafModule_def discovered_def)

lemma storeState_unwrapped:
  "unwrapStateRecursively storeState None [] =
     (SObject [(''shop'', SObject [(''title'', SPrimitive (PString ''shop'')),
                                  (''cart'', SObject [(''n'', SPrimitive (PNumber 2))]),
                                  (''user'', SObject [(''n'', SPrimitive (PNumber 3))])]),
               (''misc'', SObject [(''log'', SObject [(''n'', SPrimitive (PNumber 4))])])],
      [VuexModule 1 (Some ''shop'')
         (SObject [(''title'', SPrimitive (PString ''shop'')),
                   (''cart'', SObject [(''n'', SPrimitive (PNumber 2))]),
                   (''user'', SObject [(''n'', SPrimitive (PNumber 3))])]),
       VuexModule 2 (Some ''shop/cart'') (SObject [(''n'', SPrimitive (PNumber 2))]),
       VuexModule 3 (Some ''account'') (SObject [(''n'', SPrimitive (PNumber 3))]),
       VuexModule 4 (Some ''misc/log'') (SObject [(''n'', SPrimitive (PNumber 4))])])"
  by (simp add: storeState_def shopModule_def leafModule_def propertyNamespace_def)

section \<open>Properties of module compilation\<close>

lemma counterModule_compiled: "initVuexModule counterModule = counterModuleCompiled"
  by (simp add: initVuexModule_def compileModule_def counterModule_def counterModuleCompiled_def
      getAllPropertyKeys_def compileMember_def registerHandler_def setMember_def noMetadata_def
      hasGetterMetadata_def contextNamespacePrefix_def namespacePrefix_def initModuleAction_def
      Let_def)

lemma setMember_flag: "vuexModuleInitialized (setMember k m this) = vuexModuleInitialized this"
  by (simp add: setMember_def)

lemma registerHandler_flag: "vuexModuleInitialized (registerHandler t n h this) = vuexModuleInitialized this"
  by (simp add: registerHandler_def Let_def)

lemma compileMember_flag: "vuexModuleInitialized (compileMember this k) = vuexModuleInitialized this"
  by (simp add: compileMember_def setMember_flag registerHandler_flag split: option.splits prod.splits)

lemma compileMembers_flag: "vuexModuleInitialized (foldl compileMember this ks) = vuexModuleInitialized this"
  by (induction ks arbitrary: this) (simp_all add: compileMember_flag)

lemma initVuexModule_sets_flag: "vuexModuleInitialized (initVuexModule this)"
  by (simp add: initVuexModule_def compileModule_def compileMembers_flag registerHandler_flag)

text \<open>
  C5 (module compilation is idempotent).  A second call of \<open>initVuexModule\<close> on the
  instance the first call left returns this instance as it is: the first call has set the
  flag, and the call that finds the flag set does nothing.  So the store module is the same
  and the trace of registrations has not grown: nothing is registered twice.
\<close>

theorem initVuexModule_idempotent:
  "initVuexModule (initVuexModule this) = initVuexModule this
   \<and> thisModule (initVuexModule (initVuexModule this)) = thisModule (initVuexModule this)
   \<and> registered (initVuexModule (initVuexModule this)) = registered (initVuexModule this)"
proof -
  have "initVuexModule (initVuexModule this) = initVuexModule this"
    using initVuexModule_sets_flag[of this] by (subst initVuexModule_def) simp
  then show ?thesis by simp
qed

theorem initVuexModule_idempotent_witness:
  "initVuexModule counterModuleCompiled = counterModuleCompiled
   \<and> registered (initVuexModule counterModuleCompiled) =
       [(Actions, ''__initVuexModule__''), (Getters, ''double''),
        (Mutations, ''increment''), (Actions, ''load'')]"
  using initVuexModule_idempotent[of counterModule]
  by (simp add: counterModule_compiled) (simp add: counterModuleCompiled_def)

text \<open>
  The flag is what makes it so: compiling the compiled instance once more would register
  every handler again, and the mutation handler would then be the commit function itself.
\<close>

lemma compileModule_again_differs:
  "registered (compileModule counterModuleCompiled) =
     registered counterModuleCompiled
       @ [(Actions, ''__initVuexModule__''), (Getters, ''double''),
          (Mutations, ''increment''), (Actions, ''load'')]
   \<and> map_of (mutations (thisModule (compileModule counterModuleCompiled))) ''increment''
       = Some (MutationHandler (CommitFunction ''counter/increment''))"
  by (simp add: compileModule_def counterModuleCompiled_def
      getAllPropertyKeys_def compileMember_def registerHandler_def setMember_def noMetadata_def
      hasGetterMetadata_def contextNamespacePrefix_def namespacePrefix_def initModuleAction_def
      Let_def)

section \<open>Properties of the synced-collections module\<close>




lemma staleModule_restarted: "startCollectionSync ''users'' staleModule = Inr restartedModule"
  by (simp add: startCollectionSync_def staleModule_def restartedModule_def newModule_def
      setSyncStatus_def usersSyncing_def usersInfoStarted_def Let_def)



lemma stop_enabled:
  assumes "collections s path = Some collection" "syncEnabled collection"
    and "collectionsInfo s path = Some collectionInfo"
  shows "stopCollectionSync path False s =
     Inr (s\<lparr> collections := (collections s)(path \<mapsto>
                 collection\<lparr> syncEnabled := False, syncing := False \<rparr>),
             collectionsInfo := (collectionsInfo s)(path \<mapsto>
                 collectionInfo\<lparr> unsubscribeFromSync := None,
                                 unsubscribeFromCollectionOptions := None \<rparr>),
             activeListeners := activeListeners s - set_option (unsubscribeFromSync collectionInfo),
             activeWatchers :=
               activeWatchers s - set_option (unsubscribeFromCollectionOptions collectionInfo),
             effects := effects s @ closingEffects collectionInfo \<rparr>)"
proof -
  have a: "(collectionsInfo s)(path \<mapsto> collectionInfo) = collectionsInfo s"
    using assms(3) by auto
  have b: "unsubscribeFromSync collectionInfo = None \<Longrightarrow>
             collectionInfo\<lparr> unsubscribeFromSync := None, unsubscribeFromCollectionOptions := None \<rparr>
               = collectionInfo\<lparr> unsubscribeFromCollectionOptions := None \<rparr>"
    "unsubscribeFromCollectionOptions collectionInfo = None \<Longrightarrow>
             collectionInfo\<lparr> unsubscribeFromSync := None, unsubscribeFromCollectionOptions := None \<rparr>
               = collectionInfo\<lparr> unsubscribeFromSync := None \<rparr>"
    "unsubscribeFromSync collectionInfo = None \<Longrightarrow>
     unsubscribeFromCollectionOptions collectionInfo = None \<Longrightarrow>
             collectionInfo\<lparr> unsubscribeFromSync := None, unsubscribeFromCollectionOptions := None \<rparr>
               = collectionInfo"
    by (cases collectionInfo; simp)+
  show ?thesis
  proof (cases "unsubscribeFromSync collectionInfo")
    case None
    note n = this
    show ?thesis
    proof (cases "unsubscribeFromCollectionOptions collectionInfo")
      case None
      show ?thesis using assms n None
        by (simp add: stopCollectionSync_def closeListener_def closeWatcher_def
            setSyncStatus_def closingEffects_def Let_def a b(3)[OF n None])
    next
      case (Some w)
      show ?thesis using assms n Some
        by (simp add: stopCollectionSync_def closeListener_def closeWatcher_def
            setSyncStatus_def closingEffects_def Let_def b(1)[OF n])
    qed
  next
    case (Some h)
    note n = this
    show ?thesis
    proof (cases "unsubscribeFromCollectionOptions collectionInfo")
      case None
      show ?thesis using assms n None
        by (simp add: stopCollectionSync_def closeListener_def closeWatcher_def
            setSyncStatus_def closingEffects_def Let_def b(2)[OF None])
    next
      case (Some w)
      show ?thesis using assms n Some
        by (simp add: stopCollectionSync_def closeListener_def closeWatcher_def
            setSyncStatus_def closingEffects_def Let_def)
    qed
  qed
qed



lemmas error_defs = onStreamError_def stopCollectionSync_def closeListener_def closeWatcher_def
  setSyncStatus_def clearCollectionSubscribers_def syncCollection_def needsStart_def
  startCollectionSync_def pushSubscriber_def createCollection_def syncedModule_def
  usersSynced_def usersInfoSubscribed_def newModule_def Let_def


text \<open>
  A callback that subscribes again (7 subscribes with the callback 8, which returns) starts
  the sync again while the loop runs; its new subscriber is called as well, and is removed
  with the others when the list is cleared.  The error callback returns with the path
  sync-enabled, a new listener open and no subscriber.
\<close>

lemma resubscribing_callback_restarts_sync:
  "(case onStreamError (\<lambda>callback. if callback = 7 then Resubscribes (Some 8) else Returns) 5
          ''users'' ''permission-denied'' syncedModule of
      Some (None, s') \<Rightarrow>
        Some (map_option syncEnabled (collections s' ''users''),
              map_option collectionSubscribers (collectionsInfo s' ''users''),
              activeListeners s', effects s')
    | _ \<Rightarrow> None) =
   Some (Some True, Some [], {2},
         [ListenerOpened 0 ''users'', WatcherOpened 1 ''users'', ListenerClosed 0, WatcherClosed 1,
          ErrorCallback 7 ''permission-denied'',
          ListenerOpened 2 ''users'', WatcherOpened 3 ''users'',
          ErrorCallback 9 ''permission-denied'', ErrorCallback 8 ''permission-denied''])"
  by (simp add: error_defs numeral_nat)

text \<open>
  A callback that subscribes again with itself never lets the loop end: every call adds a
  subscriber that the loop has still to visit.  Whatever the fuel, it is used up.
\<close>

lemma resubscribe_returns:
  assumes "collections s path = Some c" "collectionsInfo s path = Some i"
  shows "\<exists>s' i'. syncCollection path cb s = Inr (s', path, nextSubscriber s)
           \<and> collections s' path \<noteq> None \<and> collectionsInfo s' path = Some i'
           \<and> collectionSubscribers i' = collectionSubscribers i
                @ [\<lparr> subscriberId = nextSubscriber s, onError = cb \<rparr>]"
  using assms
  by (cases "syncEnabled c"; cases "collectionSubscribers i = []")
     (simp_all add: syncCollection_def needsStart_def startCollectionSync_def pushSubscriber_def
        setSyncStatus_def Let_def)

lemma notify_never_ends:
  "collections s path \<noteq> None \<Longrightarrow> collectionsInfo s path = Some i \<Longrightarrow>
   k < length (collectionSubscribers i) \<Longrightarrow> onError (last (collectionSubscribers i)) \<noteq> None \<Longrightarrow>
   notifySubscribers (\<lambda>callback. Resubscribes (Some callback)) fuel path err k s = None"
proof (induction fuel arbitrary: s i k)
  case 0
  then show ?case by simp
next
  case (Suc fuel)
  let ?subs = "collectionSubscribers i"
  show ?case
  proof (cases "onError (?subs ! k)")
    case None
    have ne: "?subs \<noteq> []" using Suc.prems(3) by auto
    have "k \<noteq> length ?subs - 1"
      using None Suc.prems(4) last_conv_nth[OF ne] by auto
    then have k: "Suc k < length ?subs" using Suc.prems(3) by simp
    show ?thesis
      using Suc.IH[OF Suc.prems(1,2) k Suc.prems(4)] Suc.prems(2,3) None by simp
  next
    case (Some callback)
    let ?s1 = "s\<lparr> effects := effects s @ [ErrorCallback callback err] \<rparr>"
    obtain c where c: "collections ?s1 path = Some c" using Suc.prems(1) by auto
    have i1: "collectionsInfo ?s1 path = Some i" using Suc.prems(2) by simp
    obtain s' i' where r: "syncCollection path (Some callback) ?s1 = Inr (s', path, nextSubscriber ?s1)"
      "collections s' path \<noteq> None" "collectionsInfo s' path = Some i'"
      "collectionSubscribers i' = ?subs @ [\<lparr> subscriberId = nextSubscriber ?s1, onError = Some callback \<rparr>]"
      using resubscribe_returns[OF c i1, of "Some callback"] by blast
    have k: "Suc k < length (collectionSubscribers i')" using r(4) Suc.prems(3) by simp
    have l: "onError (last (collectionSubscribers i')) \<noteq> None" using r(4) by simp
    show ?thesis
      using Suc.IH[OF r(2,3) k l] Suc.prems(2,3) Some r(1) by simp
  qed
qed

lemma resubscribing_forever_never_returns:
  "onStreamError (\<lambda>callback. Resubscribes (Some callback)) fuel
     ''users'' ''permission-denied'' syncedModule = None"
proof -
  let ?i = "usersInfoSubscribed\<lparr> unsubscribeFromSync := None, unsubscribeFromCollectionOptions := None \<rparr>"
  have a: "collections syncedModule ''users'' = Some usersSynced" "syncEnabled usersSynced"
    "collectionsInfo syncedModule ''users'' = Some usersInfoSubscribed"
    by (simp_all add: syncedModule_def usersSynced_def)
  note st = stop_enabled[OF a]
  show ?thesis
    unfolding onStreamError_def st
    using a(3)
    by (simp add: notify_never_ends[where i = ?i] usersInfoSubscribed_def)
qed

section \<open>Subscribing and unsubscribing\<close>









lemma advance_nothing_due:
  assumes "\<forall>t \<in> set (timers s). now s + d < fst t"
  shows "advance d s = s\<lparr> now := now s + d \<rparr>"
proof -
  have a: "filter (\<lambda>x. fst x \<le> now s + d) (timers s) = []"
    using assms by (auto simp: filter_empty_conv)
  have b: "filter (\<lambda>x. \<not> fst x \<le> now s + d) (timers s) = timers s"
    using assms by (auto simp: filter_id_conv)
  show ?thesis by (simp add: advance_def Let_def a b)
qed



















lemma debounce_waits:
  assumes "\<forall>t \<in> set (timers s). now s + d < fst t" "d < unsubscribeWaitTime s"
  shows "advance d (unsubscribe u s) =
           s\<lparr> now := now s + d,
              timers := timers s @ [(now s + unsubscribeWaitTime s, fst u, snd u)] \<rparr>"
proof -
  have "\<forall>t \<in> set (timers (unsubscribe u s)). now (unsubscribe u s) + d < fst t"
    using assms by (auto simp: unsubscribe_def)
  from advance_nothing_due[OF this] show ?thesis by (simp add: unsubscribe_def)
qed










lemmas module_defs = step_def syncCollection_def needsStart_def startCollectionSync_def
  pushSubscriber_def createCollection_def setSyncStatus_def unsubscribe_def advance_def
  runTimer_def unsubscribeTimeout_def stopCollectionSync_def closeListener_def closeWatcher_def
  watchersAfter_def firedWatchers_def openedWatchers_def runWatcher_def onOptionsChanged_def
  newModule_def Let_def

lemma scenario_two:
  "scenario 2 None 10 [100, 200] 6000 =
     [Subscribe None, Subscribe None, Advance 10, Unsubscribe 0, Advance 100,
      Unsubscribe 1, Advance 200, Subscribe None, Advance 6000]"
  by (simp add: scenario_def numeral_2_eq_2 upt_rec)

text \<open>
  The run with two subscribers, step by step: at the end the third subscriber is the only
  one, no timer is left, and the effects are those of the first call.  Without the third
  subscribe call the sync is stopped when the timers have run.
\<close>

lemma scenario_final:
  "(case runEvents ''users''
     [Subscribe None, Subscribe None, Advance 10, Unsubscribe 0, Advance 100,
      Unsubscribe 1, Advance 200, Subscribe None, Advance 6000] (newModule 5000 OptString) of
      Inl e \<Rightarrow> None
    | Inr s \<Rightarrow> Some (subscriberIds ''users'' s, enabledAt ''users'' s, effects s, timers s, now s))
   = Some ([2], True, [ListenerOpened 0 ''users'', WatcherOpened 1 ''users''], [], 6310)"
  by (simp add: module_defs subscriberIds_def enabledAt_def)

lemma all_unsubscribed_stops:
  "(case runEvents ''users''
           [Subscribe None, Subscribe None, Unsubscribe 0, Advance 100, Unsubscribe 1, Advance 5000]
           (newModule 5000 OptString) of
      Inl e \<Rightarrow> None
    | Inr s \<Rightarrow> Some (subscriberIds ''users'' s, enabledAt ''users'' s, effects s, timers s))
   = Some ([], False,
           [ListenerOpened 0 ''users'', WatcherOpened 1 ''users'', ListenerClosed 0, WatcherClosed 1],
           [])"
  by (simp add: module_defs subscriberIds_def enabledAt_def)

text \<open>
  Two paths.  When the options are objects, the first subscription of a second path
  (\<open>createCollection\<close>) sets off the option watcher of the first path, which stops its sync
  and starts it again: the listener of the first path is closed and a new one is opened.
  When the options are path strings, the watcher is not called back.
\<close>

lemma subscribing_other_path_rebuilds_listener:
  "(case step ''users'' (Subscribe None) (newModule 5000 (\<lambda>p. OptObject p None None)) of
      Inl e \<Rightarrow> None
    | Inr s1 \<Rightarrow>
        (case step ''posts'' (Subscribe None) s1 of
           Inl e \<Rightarrow> None
         | Inr s2 \<Rightarrow> Some (effects s2, activeListeners s2)))
   = Some ([ListenerOpened 0 ''users'', WatcherOpened 1 ''users'',
            ListenerOpened 2 ''posts'', WatcherOpened 3 ''posts'',
            ListenerClosed 0, WatcherClosed 1,
            ListenerOpened 4 ''users'', WatcherOpened 5 ''users''], {2, 4})"
  by (auto simp: module_defs eval_nat_numeral)

lemma subscribing_other_path_with_string_options:
  "(case step ''users'' (Subscribe None) (newModule 5000 OptString) of
      Inl e \<Rightarrow> None
    | Inr s1 \<Rightarrow>
        (case step ''posts'' (Subscribe None) s1 of
           Inl e \<Rightarrow> None
         | Inr s2 \<Rightarrow> Some (effects s2, activeListeners s2)))
   = Some ([ListenerOpened 0 ''users'', WatcherOpened 1 ''users'',
            ListenerOpened 2 ''posts'', WatcherOpened 3 ''posts''], {0, 2})"
  by (auto simp: module_defs eval_nat_numeral)

subsection \<open>The invariant of the reachable states\<close>

text \<open>
  How the invariant is carried over when a listener is opened for a path, when the records
  of a path are updated keeping what they say of the listener, and when the listener of
  a path is closed.
\<close>

lemma parts_open:
  assumes c: "consistentParts C I A n E"
    and no: "\<forall>h \<in> A. ListenerOpened h path \<notin> set E"
    and e: "syncEnabled c'" "unsubscribeFromSync i' = Some n"
    and n: "n < n'" and X: "opensNothing X"
  shows "consistentParts (C(path \<mapsto> c')) (I(path \<mapsto> i')) (insert n A) n'
           (E @ ListenerOpened n path # X)"
  unfolding consistentParts_def
proof (intro conjI allI impI)
  fix p assume "(C(path \<mapsto> c')) p \<noteq> None"
  then show "(I(path \<mapsto> i')) p \<noteq> None"
    using c by (cases "p = path") (auto simp: consistentParts_def)
next
  fix h p
  assume a: "h \<in> insert n A" and b: "ListenerOpened h p \<in> set (E @ ListenerOpened n path # X)"
  have b': "ListenerOpened h p \<in> set E \<or> (h = n \<and> p = path)"
    using b X by (auto simp: opensNothing_def)
  show "\<exists>c i. (C(path \<mapsto> c')) p = Some c \<and> syncEnabled c \<and> (I(path \<mapsto> i')) p = Some i
          \<and> unsubscribeFromSync i = Some h"
  proof (cases "h = n")
    case True
    have "ListenerOpened h p \<notin> set E" using c True by (auto simp: consistentParts_def)
    then have "p = path" using b' by simp
    then show ?thesis using e True by simp
  next
    case False
    then have h: "h \<in> A" "ListenerOpened h p \<in> set E" using a b' by auto
    then have "p \<noteq> path" using no by auto
    moreover have "\<exists>c i. C p = Some c \<and> syncEnabled c \<and> I p = Some i \<and> unsubscribeFromSync i = Some h"
      using c h unfolding consistentParts_def by blast
    ultimately show ?thesis by simp
  qed
next
  fix h p assume "ListenerOpened h p \<in> set (E @ ListenerOpened n path # X)"
  then have "ListenerOpened h p \<in> set E \<or> h = n" using X by (auto simp: opensNothing_def)
  then show "h < n'" using c n by (auto simp: consistentParts_def)
next
  fix h p p'
  assume "ListenerOpened h p \<in> set (E @ ListenerOpened n path # X)"
    and "ListenerOpened h p' \<in> set (E @ ListenerOpened n path # X)"
  then have "ListenerOpened h p \<in> set E \<or> (h = n \<and> p = path)"
    "ListenerOpened h p' \<in> set E \<or> (h = n \<and> p' = path)"
    using X by (auto simp: opensNothing_def)
  moreover have "\<And>q. ListenerOpened n q \<notin> set E" using c by (auto simp: consistentParts_def)
  moreover have "ListenerOpened h p \<in> set E \<Longrightarrow> ListenerOpened h p' \<in> set E \<Longrightarrow> p = p'"
    using c unfolding consistentParts_def by blast
  ultimately show "p = p'" by auto
qed

lemma parts_keep:
  assumes c: "consistentParts C I A n E"
    and r: "C path = Some c0" "I path = Some i0"
    and e: "syncEnabled c0 \<longrightarrow> syncEnabled c'" "unsubscribeFromSync i' = unsubscribeFromSync i0"
    and n: "n \<le> n'" and X: "opensNothing X"
  shows "consistentParts (C(path \<mapsto> c')) (I(path \<mapsto> i')) A n' (E @ X)"
  unfolding consistentParts_def
proof (intro conjI allI impI)
  fix p assume "(C(path \<mapsto> c')) p \<noteq> None"
  then show "(I(path \<mapsto> i')) p \<noteq> None"
    using c by (cases "p = path") (auto simp: consistentParts_def)
next
  fix h p
  assume a: "h \<in> A" and b: "ListenerOpened h p \<in> set (E @ X)"
  then have b': "ListenerOpened h p \<in> set E" using X by (auto simp: opensNothing_def)
  have "\<exists>c i. C p = Some c \<and> syncEnabled c \<and> I p = Some i \<and> unsubscribeFromSync i = Some h"
    using c a b' unfolding consistentParts_def by blast
  then show "\<exists>c i. (C(path \<mapsto> c')) p = Some c \<and> syncEnabled c \<and> (I(path \<mapsto> i')) p = Some i
          \<and> unsubscribeFromSync i = Some h"
    using r e by (cases "p = path") auto
next
  fix h p assume "ListenerOpened h p \<in> set (E @ X)"
  then have "ListenerOpened h p \<in> set E" using X by (auto simp: opensNothing_def)
  then show "h < n'" using c n by (auto simp: consistentParts_def)
next
  fix h p p'
  assume "ListenerOpened h p \<in> set (E @ X)" and "ListenerOpened h p' \<in> set (E @ X)"
  then have "ListenerOpened h p \<in> set E" "ListenerOpened h p' \<in> set E"
    using X by (auto simp: opensNothing_def)
  then show "p = p'" using c unfolding consistentParts_def by blast
qed

lemma parts_close:
  assumes c: "consistentParts C I A n E"
    and r: "I path = Some i0" and X: "opensNothing X"
  shows "consistentParts (C(path \<mapsto> c')) (I(path \<mapsto> i'))
           (A - set_option (unsubscribeFromSync i0)) n (E @ X)"
  unfolding consistentParts_def
proof (intro conjI allI impI)
  fix p assume "(C(path \<mapsto> c')) p \<noteq> None"
  then show "(I(path \<mapsto> i')) p \<noteq> None"
    using c by (cases "p = path") (auto simp: consistentParts_def)
next
  fix h p
  assume a: "h \<in> A - set_option (unsubscribeFromSync i0)" and b: "ListenerOpened h p \<in> set (E @ X)"
  then have b': "ListenerOpened h p \<in> set E" and a': "h \<in> A"
    using X by (auto simp: opensNothing_def)
  have k: "\<exists>c i. C p = Some c \<and> syncEnabled c \<and> I p = Some i \<and> unsubscribeFromSync i = Some h"
    using c a' b' unfolding consistentParts_def by blast
  have "p \<noteq> path" using k r a by auto
  then show "\<exists>c i. (C(path \<mapsto> c')) p = Some c \<and> syncEnabled c \<and> (I(path \<mapsto> i')) p = Some i
          \<and> unsubscribeFromSync i = Some h"
    using k by simp
next
  fix h p assume "ListenerOpened h p \<in> set (E @ X)"
  then have "ListenerOpened h p \<in> set E" using X by (auto simp: opensNothing_def)
  then show "h < n" using c by (auto simp: consistentParts_def)
next
  fix h p p'
  assume "ListenerOpened h p \<in> set (E @ X)" and "ListenerOpened h p' \<in> set (E @ X)"
  then have "ListenerOpened h p \<in> set E" "ListenerOpened h p' \<in> set E"
    using X by (auto simp: opensNothing_def)
  then show "p = p'" using c unfolding consistentParts_def by blast
qed

lemma consistent_new: "consistent (newModule w m)"
  by (simp add: consistent_def consistentParts_def newModule_def)

lemma consistent_info:
  "consistent s \<Longrightarrow> collections s p = Some c \<Longrightarrow> \<exists>i. collectionsInfo s p = Some i"
  by (auto simp: consistent_def consistentParts_def)

lemma consistent_no_listener:
  assumes "consistent s"
    and "collections s path = None \<or> (\<exists>c. collections s path = Some c \<and> \<not> syncEnabled c)"
  shows "\<forall>h \<in> activeListeners s. ListenerOpened h path \<notin> set (effects s)"
proof (intro ballI notI)
  fix h assume "h \<in> activeListeners s" "ListenerOpened h path \<in> set (effects s)"
  then have "\<exists>c i. collections s path = Some c \<and> syncEnabled c \<and> collectionsInfo s path = Some i
      \<and> unsubscribeFromSync i = Some h"
    using assms(1) unfolding consistent_def consistentParts_def by blast
  then show False using assms(2) by auto
qed

lemma consistent_start:
  assumes c: "consistent s" and r: "startCollectionSync path s = Inr s'"
  shows "consistent s'"
proof (cases "collections s path")
  case None
  define c' where "c' = \<lparr> syncedList = [], syncEnabled = True, syncing = True \<rparr>"
  define i' where "i' = \<lparr> unsubscribeFromSync = Some (nextHandle s), firstSync = True,
      collectionSubscribers = [], unsubscribeFromCollectionOptions = Some (Suc (nextHandle s)) \<rparr>"
  have s': "s' = s\<lparr> collections := (collections s)(path \<mapsto> c'),
                    collectionsInfo := (collectionsInfo s)(path \<mapsto> i'),
                    activeListeners := insert (nextHandle s) (activeListeners s),
                    activeWatchers := insert (Suc (nextHandle s)) (activeWatchers s),
                    nextHandle := Suc (Suc (nextHandle s)),
                    effects := effects s @ [ListenerOpened (nextHandle s) path,
                                            WatcherOpened (Suc (nextHandle s)) path] \<rparr>"
    using r[symmetric] None
    by (simp add: startCollectionSync_def createCollection_def setSyncStatus_def Let_def c'_def i'_def)
  have no: "\<forall>h \<in> activeListeners s. ListenerOpened h path \<notin> set (effects s)"
    using consistent_no_listener[OF c] None by simp
  have "consistentParts ((collections s)(path \<mapsto> c')) ((collectionsInfo s)(path \<mapsto> i'))
          (insert (nextHandle s) (activeListeners s)) (Suc (Suc (nextHandle s)))
          (effects s @ ListenerOpened (nextHandle s) path # [WatcherOpened (Suc (nextHandle s)) path])"
    by (rule parts_open[OF c[unfolded consistent_def] no])
       (simp_all add: c'_def i'_def opensNothing_def)
  then show ?thesis by (simp add: s' consistent_def)
next
  case (Some c0)
  obtain i0 where i0: "collectionsInfo s path = Some i0" using consistent_info[OF c Some] by blast
  show ?thesis
  proof (cases "syncEnabled c0")
    case True
    define i' where "i' = i0\<lparr> unsubscribeFromCollectionOptions := Some (nextHandle s) \<rparr>"
    have s': "s' = s\<lparr> collectionsInfo := (collectionsInfo s)(path \<mapsto> i'),
                      activeWatchers := insert (nextHandle s) (activeWatchers s),
                      nextHandle := Suc (nextHandle s),
                      effects := effects s @ [WatcherOpened (nextHandle s) path] \<rparr>"
      using r[symmetric] Some i0 True by (simp add: startCollectionSync_def Let_def i'_def)
    have "consistentParts ((collections s)(path \<mapsto> c0)) ((collectionsInfo s)(path \<mapsto> i'))
          (activeListeners s) (Suc (nextHandle s)) (effects s @ [WatcherOpened (nextHandle s) path])"
      by (rule parts_keep[OF c[unfolded consistent_def] Some i0])
         (simp_all add: i'_def opensNothing_def)
    moreover have "(collections s)(path \<mapsto> c0) = collections s" using Some by auto
    ultimately show ?thesis by (simp add: s' consistent_def)
  next
    case False
    define c' where "c' = c0\<lparr> syncEnabled := True, syncing := True \<rparr>"
    define i' where "i' = i0\<lparr> firstSync := True, unsubscribeFromSync := Some (nextHandle s),
        unsubscribeFromCollectionOptions := Some (Suc (nextHandle s)) \<rparr>"
    have s': "s' = s\<lparr> collections := (collections s)(path \<mapsto> c'),
                    collectionsInfo := (collectionsInfo s)(path \<mapsto> i'),
                    activeListeners := insert (nextHandle s) (activeListeners s),
                    activeWatchers := insert (Suc (nextHandle s)) (activeWatchers s),
                    nextHandle := Suc (Suc (nextHandle s)),
                    effects := effects s @ [ListenerOpened (nextHandle s) path,
                                            WatcherOpened (Suc (nextHandle s)) path] \<rparr>"
      using r[symmetric] Some i0 False
      by (simp add: startCollectionSync_def setSyncStatus_def Let_def c'_def i'_def)
    have no: "\<forall>h \<in> activeListeners s. ListenerOpened h path \<notin> set (effects s)"
      using consistent_no_listener[OF c] Some False by simp
    have "consistentParts ((collections s)(path \<mapsto> c')) ((collectionsInfo s)(path \<mapsto> i'))
          (insert (nextHandle s) (activeListeners s)) (Suc (Suc (nextHandle s)))
          (effects s @ ListenerOpened (nextHandle s) path # [WatcherOpened (Suc (nextHandle s)) path])"
      by (rule parts_open[OF c[unfolded consistent_def] no])
         (simp_all add: c'_def i'_def opensNothing_def)
    then show ?thesis by (simp add: s' consistent_def)
  qed
qed

lemma stop_parts:
  assumes r: "collections s path = Some c0" "syncEnabled c0" "collectionsInfo s path = Some i0"
  shows "\<exists>s' i' X. stopCollectionSync path False s = Inr s'
      \<and> collections s' = (collections s)(path \<mapsto> c0\<lparr> syncEnabled := False, syncing := False \<rparr>)
      \<and> collectionsInfo s' = (collectionsInfo s)(path \<mapsto> i')
      \<and> collectionSubscribers i' = collectionSubscribers i0
      \<and> activeListeners s' = activeListeners s - set_option (unsubscribeFromSync i0)
      \<and> nextHandle s' = nextHandle s
      \<and> effects s' = effects s @ X \<and> opensNothing X"
proof (cases "unsubscribeFromSync i0")
  case None
  note a = this
  show ?thesis
  proof (cases "unsubscribeFromCollectionOptions i0")
    case None
    have "collectionsInfo s = (collectionsInfo s)(path \<mapsto> i0)" using r(3) by auto
    then show ?thesis using r a None
      by (intro exI[of _ "setSyncStatus path False False False s"] exI[of _ i0] exI[of _ "[]"])
         (simp add: stopCollectionSync_def closeListener_def closeWatcher_def setSyncStatus_def
            opensNothing_def)
  next
    case (Some w)
    show ?thesis using r a Some
      by (intro exI[of _ "setSyncStatus path False False False (closeWatcher path i0 s)"]
            exI[of _ "i0\<lparr> unsubscribeFromCollectionOptions := None \<rparr>"] exI[of _ "[WatcherClosed w]"])
         (simp add: stopCollectionSync_def closeListener_def closeWatcher_def setSyncStatus_def
            opensNothing_def)
  qed
next
  case (Some h)
  note a = this
  show ?thesis
  proof (cases "unsubscribeFromCollectionOptions i0")
    case None
    show ?thesis using r a None
      by (intro exI[of _ "setSyncStatus path False False False (closeListener path i0 s)"]
            exI[of _ "i0\<lparr> unsubscribeFromSync := None \<rparr>"] exI[of _ "[ListenerClosed h]"])
         (simp add: stopCollectionSync_def closeListener_def closeWatcher_def setSyncStatus_def
            opensNothing_def)
  next
    case (Some w)
    show ?thesis using r a Some
      by (intro exI[of _ "setSyncStatus path False False False
              (closeWatcher path (i0\<lparr> unsubscribeFromSync := None \<rparr>) (closeListener path i0 s))"]
            exI[of _ "i0\<lparr> unsubscribeFromSync := None, unsubscribeFromCollectionOptions := None \<rparr>"]
            exI[of _ "[ListenerClosed h, WatcherClosed w]"])
         (simp add: stopCollectionSync_def closeListener_def closeWatcher_def setSyncStatus_def
            opensNothing_def)
  qed
qed

lemma stop_unchanged:
  "collections s path = None \<or> (\<exists>c. collections s path = Some c \<and> \<not> syncEnabled c)
     \<Longrightarrow> stopCollectionSync path False s = Inr s"
  by (auto simp: stopCollectionSync_def)

lemma consistent_parts_eq:
  assumes "consistentParts C I A n E"
    and "collections s' = C" "collectionsInfo s' = I" "activeListeners s' = A"
      "nextHandle s' = n" "effects s' = E"
  shows "consistent s'"
  using assms by (simp add: consistent_def)

lemma consistent_stop:
  assumes c: "consistent s"
  shows "\<exists>s'. stopCollectionSync path False s = Inr s' \<and> consistent s'
           \<and> (\<forall>c. collections s' path = Some c \<longrightarrow> \<not> syncEnabled c)
           \<and> (collections s' path = None) = (collections s path = None)"
proof (cases "collections s path = None \<or> (\<exists>c. collections s path = Some c \<and> \<not> syncEnabled c)")
  case True
  then show ?thesis using c stop_unchanged[OF True] by auto
next
  case False
  then obtain c0 where c0: "collections s path = Some c0" "syncEnabled c0" by auto
  obtain i0 where i0: "collectionsInfo s path = Some i0" using consistent_info[OF c c0(1)] by blast
  from stop_parts[OF c0 i0] obtain s' i' X where s':
    "stopCollectionSync path False s = Inr s'"
    "collections s' = (collections s)(path \<mapsto> c0\<lparr> syncEnabled := False, syncing := False \<rparr>)"
    "collectionsInfo s' = (collectionsInfo s)(path \<mapsto> i')"
    "activeListeners s' = activeListeners s - set_option (unsubscribeFromSync i0)"
    "nextHandle s' = nextHandle s"
    "effects s' = effects s @ X" "opensNothing X" by blast
  have "consistent s'"
    by (rule consistent_parts_eq[OF parts_close[OF c[unfolded consistent_def] i0 s'(7)]])
       (simp_all add: s')
  then show ?thesis using s' c0 by simp
qed

lemma parts_mono:
  assumes c: "consistentParts C I A n E"
    and i: "\<forall>p. C' p \<noteq> None \<longrightarrow> I' p \<noteq> None"
    and k: "\<forall>p c i h. C p = Some c \<longrightarrow> syncEnabled c \<longrightarrow> I p = Some i \<longrightarrow>
              unsubscribeFromSync i = Some h \<longrightarrow> h \<in> A' \<longrightarrow>
              (\<exists>c' i'. C' p = Some c' \<and> syncEnabled c' \<and> I' p = Some i'
                 \<and> unsubscribeFromSync i' = Some h)"
    and A: "A' \<subseteq> A" and n: "n \<le> n'" and X: "opensNothing X"
  shows "consistentParts C' I' A' n' (E @ X)"
  unfolding consistentParts_def
proof (intro conjI allI impI)
  fix p assume "C' p \<noteq> None"
  then show "I' p \<noteq> None" using i by blast
next
  fix h p
  assume a: "h \<in> A'" and b: "ListenerOpened h p \<in> set (E @ X)"
  then have b': "ListenerOpened h p \<in> set E" and a': "h \<in> A"
    using X A by (auto simp: opensNothing_def)
  obtain c0 i0 where "C p = Some c0" "syncEnabled c0" "I p = Some i0" "unsubscribeFromSync i0 = Some h"
    using c a' b' unfolding consistentParts_def by blast
  then show "\<exists>c i. C' p = Some c \<and> syncEnabled c \<and> I' p = Some i \<and> unsubscribeFromSync i = Some h"
    using k a by blast
next
  fix h p assume "ListenerOpened h p \<in> set (E @ X)"
  then have "ListenerOpened h p \<in> set E" using X by (auto simp: opensNothing_def)
  then show "h < n'" using c n by (auto simp: consistentParts_def)
next
  fix h p p'
  assume "ListenerOpened h p \<in> set (E @ X)" and "ListenerOpened h p' \<in> set (E @ X)"
  then have "ListenerOpened h p \<in> set E" "ListenerOpened h p' \<in> set E"
    using X by (auto simp: opensNothing_def)
  then show "p = p'" using c unfolding consistentParts_def by blast
qed

lemma consistent_mono:
  assumes c: "consistent s"
    and i: "\<forall>p. collections s' p \<noteq> None \<longrightarrow> collectionsInfo s' p \<noteq> None"
    and k: "\<forall>p c i h. collections s p = Some c \<longrightarrow> syncEnabled c \<longrightarrow> collectionsInfo s p = Some i \<longrightarrow>
              unsubscribeFromSync i = Some h \<longrightarrow> h \<in> activeListeners s' \<longrightarrow>
              (\<exists>c' i'. collections s' p = Some c' \<and> syncEnabled c' \<and> collectionsInfo s' p = Some i'
                 \<and> unsubscribeFromSync i' = Some h)"
    and A: "activeListeners s' \<subseteq> activeListeners s" and n: "nextHandle s \<le> nextHandle s'"
    and X: "effects s' = effects s @ X" "opensNothing X"
  shows "consistent s'"
  using parts_mono[OF c[unfolded consistent_def] i k A n X(2)] X(1)
  by (simp add: consistent_def)

lemma consistent_info_upd:
  assumes c: "consistent s" and i: "collectionsInfo s path = Some i0"
    and u: "unsubscribeFromSync i' = unsubscribeFromSync i0"
  shows "consistent (s\<lparr> collectionsInfo := (collectionsInfo s)(path \<mapsto> i') \<rparr>)"
  by (rule consistent_mono[OF c, where X = "[]"]) (use c i u in \<open>auto simp: consistent_def consistentParts_def opensNothing_def\<close>)

lemma start_returns:
  assumes c: "consistent s"
  shows "\<exists>s'. startCollectionSync path s = Inr s'"
proof (cases "collections s path")
  case None
  then show ?thesis
    by (simp add: startCollectionSync_def createCollection_def setSyncStatus_def Let_def)
next
  case (Some c0)
  obtain i0 where "collectionsInfo s path = Some i0" using consistent_info[OF c Some] by blast
  then show ?thesis using Some
    by (simp add: startCollectionSync_def setSyncStatus_def Let_def)
qed

lemma start_info:
  "startCollectionSync path s = Inr s' \<Longrightarrow>
     \<exists>c i. collections s' path = Some c \<and> collectionsInfo s' path = Some i"
  by (auto simp: startCollectionSync_def createCollection_def setSyncStatus_def Let_def
      split: option.splits if_splits)

lemma consistent_push:
  assumes c: "consistent s" and r: "pushSubscriber path callback s = Inr r"
  shows "consistent (fst r)"
proof -
  obtain i0 where i0: "collectionsInfo s path = Some i0"
    using r by (auto simp: pushSubscriber_def split: option.splits)
  define i' where "i' = i0\<lparr> collectionSubscribers := collectionSubscribers i0
                        @ [\<lparr> subscriberId = nextSubscriber s, onError = callback \<rparr>] \<rparr>"
  have u: "unsubscribeFromSync i' = unsubscribeFromSync i0" by (simp add: i'_def)
  have "fst r = (s\<lparr> collectionsInfo := (collectionsInfo s)(path \<mapsto> i') \<rparr>)
                  \<lparr> nextSubscriber := Suc (nextSubscriber s) \<rparr>"
    using r[symmetric] i0 by (simp add: pushSubscriber_def i'_def)
  then show ?thesis using consistent_info_upd[OF c i0 u] by (simp add: consistent_def)
qed

lemma consistent_sync:
  assumes c: "consistent s" and r: "syncCollection path callback s = Inr r"
  shows "consistent (fst r)"
proof (cases "needsStart path s")
  case (Inl e)
  then show ?thesis using r by (simp add: syncCollection_def)
next
  case (Inr b)
  show ?thesis
  proof (cases b)
    case True
    then obtain s1 where s1: "startCollectionSync path s = Inr s1"
      "pushSubscriber path callback s1 = Inr r"
      using r Inr by (auto simp: syncCollection_def split: sum.splits)
    show ?thesis by (rule consistent_push[OF consistent_start[OF c s1(1)] s1(2)])
  next
    case False
    then have "pushSubscriber path callback s = Inr r" using r Inr by (simp add: syncCollection_def)
    then show ?thesis by (rule consistent_push[OF c])
  qed
qed

lemma sync_returns:
  assumes c: "consistent s"
  shows "\<exists>r. syncCollection path callback s = Inr r"
proof (cases "collections s path = None \<or> (\<exists>c. collections s path = Some c \<and> \<not> syncEnabled c)")
  case True
  then have n: "needsStart path s = Inr True" by (auto simp: needsStart_def)
  obtain s1 where s1: "startCollectionSync path s = Inr s1" using start_returns[OF c] by blast
  obtain c1 i1 where "collectionsInfo s1 path = Some i1" using start_info[OF s1] by blast
  then show ?thesis using n s1 by (simp add: syncCollection_def pushSubscriber_def)
next
  case False
  then obtain c0 where c0: "collections s path = Some c0" "syncEnabled c0" by auto
  obtain i0 where i0: "collectionsInfo s path = Some i0" using consistent_info[OF c c0(1)] by blast
  show ?thesis
  proof (cases "collectionSubscribers i0 = []")
    case True
    then have n: "needsStart path s = Inr True" using c0 i0 by (simp add: needsStart_def)
    obtain s1 where s1: "startCollectionSync path s = Inr s1" using start_returns[OF c] by blast
    obtain c1 i1 where "collectionsInfo s1 path = Some i1" using start_info[OF s1] by blast
    then show ?thesis using n s1 by (simp add: syncCollection_def pushSubscriber_def)
  next
    case False
    then have n: "needsStart path s = Inr False" using c0 i0 by (simp add: needsStart_def)
    then show ?thesis using i0 by (simp add: syncCollection_def pushSubscriber_def)
  qed
qed

lemma consistent_unsubscribe: "consistent s \<Longrightarrow> consistent (unsubscribe closure s)"
  by (simp add: consistent_def unsubscribe_def)

lemma consistent_timeout:
  assumes c: "consistent s"
  shows "\<exists>s'. unsubscribeTimeout closure s = Inr s' \<and> consistent s'"
proof (cases "collectionsInfo s (fst closure)")
  case None
  then show ?thesis using c by (simp add: unsubscribeTimeout_def)
next
  case (Some i0)
  define i' where "i' = i0\<lparr> collectionSubscribers :=
      removeSubscriber (snd closure) (collectionSubscribers i0) \<rparr>"
  define s1 where "s1 = s\<lparr> collectionsInfo := (collectionsInfo s)(fst closure \<mapsto> i') \<rparr>"
  have c1: "consistent s1" unfolding s1_def
    by (rule consistent_info_upd[OF c Some]) (simp add: i'_def)
  have "unsubscribeTimeout closure s =
      (if removeSubscriber (snd closure) (collectionSubscribers i0) = []
       then stopCollectionSync (fst closure) False s1 else Inr s1)"
    using Some by (simp add: unsubscribeTimeout_def Let_def s1_def i'_def)
  then show ?thesis using c1 consistent_stop[OF c1, of "fst closure"] by auto
qed

lemma consistent_runTimer: "consistent s \<Longrightarrow> consistent (runTimer s t)"
  using consistent_timeout[of s "snd t"] by (auto simp: runTimer_def)

lemma consistent_runTimers: "consistent s \<Longrightarrow> consistent (foldl runTimer s ts)"
  by (induction ts arbitrary: s) (simp_all add: consistent_runTimer)

lemma consistent_advance: "consistent s \<Longrightarrow> consistent (advance d s)"
  unfolding advance_def Let_def
  by (rule consistent_runTimers) (simp add: consistent_def)

lemma consistent_event:
  assumes c: "consistent s" and r: "commitUpdateCollectionFromSnapshot path refPath snapshot s = Inr s'"
  shows "consistent s'"
proof (cases "collections s path")
  case None
  then show ?thesis using c r by (simp add: commitUpdateCollectionFromSnapshot_def)
next
  case (Some c0)
  obtain i0 where i0: "collectionsInfo s path = Some i0" using consistent_info[OF c Some] by blast
  obtain l where s': "s' = s\<lparr> collections := (collections s)(path \<mapsto> c0\<lparr> syncedList := l, syncing := False \<rparr>),
                            collectionsInfo := (collectionsInfo s)(path \<mapsto> i0\<lparr> firstSync := False \<rparr>) \<rparr>"
    using r[symmetric] Some i0
    by (auto simp: commitUpdateCollectionFromSnapshot_def split: sum.splits)
  have "consistentParts ((collections s)(path \<mapsto> c0\<lparr> syncedList := l, syncing := False \<rparr>))
          ((collectionsInfo s)(path \<mapsto> i0\<lparr> firstSync := False \<rparr>))
          (activeListeners s) (nextHandle s) (effects s @ [])"
    by (rule parts_keep[OF c[unfolded consistent_def] Some i0]) (simp_all add: opensNothing_def)
  then show ?thesis by (simp add: s' consistent_def)
qed

lemma opensNothing_errorCallbacks: "opensNothing (errorCallbacks err subscribers)"
  by (induction subscribers) (auto simp: opensNothing_def errorCallbacks_def split: option.splits)

lemma consistent_notify:
  "consistent s \<Longrightarrow> notifySubscribers behaviour fuel path err i s = Some (thrown, s') \<Longrightarrow>
   consistent s'"
proof (induction fuel arbitrary: i s)
  case 0
  then show ?case by simp
next
  case (Suc fuel)
  show ?case
  proof (cases "collectionsInfo s path")
    case None
    then show ?thesis using Suc.prems by simp
  next
    case (Some info)
    show ?thesis
    proof (cases "length (collectionSubscribers info) \<le> i")
      case True
      then show ?thesis using Suc.prems Some by simp
    next
      case False
      show ?thesis
      proof (cases "onError (collectionSubscribers info ! i)")
        case None
        then have "notifySubscribers behaviour fuel path err (Suc i) s = Some (thrown, s')"
          using Suc.prems(2) Some False by simp
        then show ?thesis using Suc.IH[OF Suc.prems(1)] by blast
      next
        case cb: (Some callback)
        let ?s1 = "s\<lparr> effects := effects s @ [ErrorCallback callback err] \<rparr>"
        have c1: "consistent ?s1"
          by (rule consistent_mono[OF Suc.prems(1), where X = "[ErrorCallback callback err]"])
             (use Suc.prems(1) in \<open>auto simp: opensNothing_def consistent_def consistentParts_def\<close>)
        show ?thesis
        proof (cases "behaviour callback")
          case Returns
          then have "notifySubscribers behaviour fuel path err (Suc i) ?s1 = Some (thrown, s')"
            using Suc.prems(2) Some False cb by simp
          then show ?thesis using Suc.IH[OF c1] by blast
        next
          case Throws
          then have "s' = ?s1" using Suc.prems(2) Some False cb by simp
          then show ?thesis using c1 by simp
        next
          case (Resubscribes callback')
          show ?thesis
          proof (cases "syncCollection path callback' ?s1")
            case (Inl e)
            then have "s' = ?s1" using Suc.prems(2) Some False cb Resubscribes by simp
            then show ?thesis using c1 by simp
          next
            case (Inr r)
            then have "notifySubscribers behaviour fuel path err (Suc i) (fst r) = Some (thrown, s')"
              using Suc.prems(2) Some False cb Resubscribes by simp
            then show ?thesis using Suc.IH[OF consistent_sync[OF c1 Inr]] by blast
          qed
        qed
      qed
    qed
  qed
qed

lemma consistent_clear: "consistent s \<Longrightarrow> consistent (clearCollectionSubscribers path s)"
proof (cases "collectionsInfo s path")
  case None
  assume "consistent s"
  then show ?thesis using None by (simp add: clearCollectionSubscribers_def)
next
  case (Some i)
  assume c: "consistent s"
  show ?thesis unfolding clearCollectionSubscribers_def Some option.case
    by (rule consistent_info_upd[OF c Some]) simp
qed

lemma consistent_error:
  assumes c: "consistent s" and r: "onStreamError behaviour fuel path err s = Some (thrown, s')"
  shows "consistent s'"
proof -
  obtain s1 where s1: "stopCollectionSync path False s = Inr s1" "consistent s1"
    using consistent_stop[OF c, of path] by blast
  show ?thesis
  proof (cases "collectionsInfo s path")
    case None
    then show ?thesis using s1 r by (simp add: onStreamError_def)
  next
    case (Some i0)
    show ?thesis
    proof (cases "notifySubscribers behaviour fuel path err 0 s1")
      case None
      then show ?thesis using s1 r Some by (simp add: onStreamError_def)
    next
      case n: (Some res)
      obtain t s2 where res: "res = (t, s2)" by (cases res) auto
      have c2: "consistent s2" using consistent_notify[OF s1(2)] n res by blast
      show ?thesis
      proof (cases t)
        case None
        then have "s' = clearCollectionSubscribers path s2"
          using s1 r Some n res by (simp add: onStreamError_def)
        then show ?thesis using consistent_clear[OF c2] by simp
      next
        case (Some e)
        then have "s' = s2" using s1 r \<open>collectionsInfo s path = Some i0\<close> n res
          by (simp add: onStreamError_def)
        then show ?thesis using c2 by simp
      qed
    qed
  qed
qed

lemma consistent_options:
  assumes c: "consistent s"
  shows "\<exists>s'. onOptionsChanged path s = Inr s' \<and> consistent s'"
proof -
  obtain s1 where s1: "stopCollectionSync path False s = Inr s1" "consistent s1"
    using consistent_stop[OF c, of path] by blast
  obtain s2 where s2: "startCollectionSync path s1 = Inr s2" using start_returns[OF s1(2)] by blast
  have "consistent s2" by (rule consistent_start[OF s1(2) s2])
  then show ?thesis using c s1 s2 by (auto simp: onOptionsChanged_def split: option.splits)
qed

text \<open>
  Every reachable state is consistent.  So in a reachable state an open listener of a path
  finds the record of the path sync-enabled and its private record holding the listener:
  the state in which the error callback and the event callback of the listener run.  And
  in a reachable state none of the calls throws.
\<close>

lemma reachable_consistent: "reachable s \<Longrightarrow> consistent s"
proof (induction rule: reachable.induct)
  case (new waitTime mapOptions)
  show ?case by (rule consistent_new)
next
  case (subscribed s path callback r)
  then show ?case by (simp add: consistent_sync)
next
  case (unsubscribed s closure)
  then show ?case by (simp add: consistent_unsubscribe)
next
  case (time s d)
  then show ?case by (simp add: consistent_advance)
next
  case (event s path refPath snapshot s')
  then show ?case using consistent_event by blast
next
  case (failed s behaviour fuel path err thrown s')
  then show ?case using consistent_error by blast
next
  case (options s path mapOptions s')
  have "consistent (s\<lparr> mapCollectionOptions := mapOptions \<rparr>)"
    using options.IH by (simp add: consistent_def)
  then show ?case using consistent_options[of "s\<lparr> mapCollectionOptions := mapOptions \<rparr>" path] options.hyps
    by auto
qed

lemma open_listener_is_enabled:
  assumes "reachable s" and "listenerOpenFor path s"
  shows "\<exists>c i h. collections s path = Some c \<and> syncEnabled c
           \<and> collectionsInfo s path = Some i \<and> unsubscribeFromSync i = Some h
           \<and> h \<in> activeListeners s"
proof -
  have c: "consistent s" using assms(1) by (rule reachable_consistent)
  obtain h where h: "h \<in> activeListeners s" "ListenerOpened h path \<in> set (effects s)"
    using assms(2) by (auto simp: listenerOpenFor_def)
  then have "\<exists>c i. collections s path = Some c \<and> syncEnabled c
           \<and> collectionsInfo s path = Some i \<and> unsubscribeFromSync i = Some h"
    using c unfolding consistent_def consistentParts_def by blast
  then show ?thesis using h(1) by blast
qed

lemma reachable_calls_return:
  assumes "reachable s"
  shows "(\<exists>r. syncCollection path callback s = Inr r)
       \<and> (\<exists>s'. unsubscribeTimeout closure s = Inr s')
       \<and> (\<exists>s'. stopCollectionSync path False s = Inr s')
       \<and> (\<exists>s'. onOptionsChanged path s = Inr s')"
  using reachable_consistent[OF assms] sync_returns consistent_timeout consistent_stop
    consistent_options by blast

lemma reachable_runWatcher: "reachable s \<Longrightarrow> reachable (runWatcher s w)"
proof -
  assume r: "reachable s"
  have e: "s\<lparr> mapCollectionOptions := mapCollectionOptions s \<rparr> = s" by simp
  show ?thesis
  proof (cases "onOptionsChanged (snd w) s")
    case (Inl a)
    then show ?thesis using r by (simp add: runWatcher_def)
  next
    case (Inr s')
    have "reachable s'"
      using reachable.options[OF r, of "snd w" "mapCollectionOptions s" s'] Inr e by simp
    then show ?thesis using r Inr by (simp add: runWatcher_def)
  qed
qed

lemma reachable_runWatchers: "reachable s \<Longrightarrow> reachable (foldl runWatcher s ws)"
  by (induction ws arbitrary: s) (simp_all add: reachable_runWatcher)

lemma reachable_step:
  assumes "reachable s" and "step path e s = Inr s'"
  shows "reachable s'"
proof (cases e)
  case (Subscribe callback)
  then obtain r where r: "syncCollection path callback s = Inr r"
    "s' = watchersAfter path s (fst r)"
    using assms(2) by (auto simp: step_def split: sum.splits)
  have "reachable (fst r)" using reachable.subscribed[OF assms(1) r(1)] .
  then show ?thesis using r(2) by (simp add: watchersAfter_def reachable_runWatchers)
next
  case (Unsubscribe i)
  then show ?thesis using assms by (auto simp: step_def intro: reachable.unsubscribed)
next
  case (Advance d)
  then show ?thesis using assms by (auto simp: step_def intro: reachable.time)
qed


end
